theory Spec2Isabelle
  imports Complex_Main
begin

chapter \<open>The media-analysis scripts: a shallow embedding\<close>

text \<open>
  Strings are \<^typ>\<open>string\<close>; the embedding covers ASCII text, where Python's
  \<^verbatim>\<open>str.isspace\<close> holds exactly for the code points 9 to 13 and 28 to 32.
  Python's unbounded integers are \<^typ>\<open>int\<close>.
\<close>

section \<open>Python built-ins used by the scripts\<close>

text \<open>\<^verbatim>\<open>str.isspace\<close> on one ASCII character.\<close>

definition is_space :: "char \<Rightarrow> bool" where
  "is_space c = (let n = (of_char c :: nat) in (9 \<le> n \<and> n \<le> 13) \<or> (28 \<le> n \<and> n \<le> 32))"

text \<open>
  \<^verbatim>\<open>text.split()\<close> with no separator: the maximal runs of non-whitespace
  characters, in order. \<open>words_from cur s\<close> scans \<open>s\<close> with the word read so far in
  \<open>cur\<close>.
\<close>

fun words_from :: "string \<Rightarrow> string \<Rightarrow> string list" where
  "words_from cur [] = (if cur = [] then [] else [cur])"
| "words_from cur (c # cs) =
     (if is_space c then (if cur = [] then words_from [] cs else cur # words_from [] cs)
      else words_from (cur @ [c]) cs)"

definition split_ws :: "string \<Rightarrow> string list" where
  "split_ws s = words_from [] s"

text \<open>\<^verbatim>\<open>sep.join(ws)\<close>.\<close>

fun str_join :: "string \<Rightarrow> string list \<Rightarrow> string" where
  "str_join sep [] = []"
| "str_join sep [w] = w"
| "str_join sep (w # v # ws) = w @ sep @ str_join sep (v # ws)"

text \<open>
  The slice \<^verbatim>\<open>xs[i:j]\<close>: a negative index counts from the end, and both
  bounds are clamped to the list.
\<close>

definition py_slice :: "'a list \<Rightarrow> int \<Rightarrow> int \<Rightarrow> 'a list" where
  "py_slice xs i j =
     (let n = int (length xs);
          lo = (if i < 0 then max (i + n) 0 else min i n);
          hi = (if j < 0 then max (j + n) 0 else min j n)
      in take (nat (hi - lo)) (drop (nat lo) xs))"

section \<open>Document ingestion: \<^verbatim>\<open>doc_ingest_chunk_embed.py\<close>\<close>

text \<open>
  The \<^verbatim>\<open>while start < len(words)\<close> loop of \<^verbatim>\<open>chunk_text\<close>. The loop
  need not terminate, so it is a partial function: \<open>None\<close> stands for a run that never
  returns.
\<close>

partial_function (option) chunk_loop ::
  "string list \<Rightarrow> int \<Rightarrow> int \<Rightarrow> string list \<Rightarrow> int \<Rightarrow> string list option" where
  "chunk_loop words chunk_size overlap chunks start =
     (if start < int (length words)
      then chunk_loop words chunk_size overlap
             (chunks @ [str_join '' '' (py_slice words start (start + chunk_size))])
             (start + chunk_size - overlap)
      else Some chunks)"

declare chunk_loop.simps [code]

text \<open>
  \<^verbatim>\<open>chunk_text(text, chunk_size=500, overlap=50)\<close>; the defaults are passed
  explicitly as \<open>chunk_text text 500 50\<close>.
\<close>

definition chunk_text :: "string \<Rightarrow> int \<Rightarrow> int \<Rightarrow> string list option" where
  "chunk_text text chunk_size overlap = chunk_loop (split_ws text) chunk_size overlap [] 0"

section \<open>Live context box: \<^verbatim>\<open>live_context_box.py\<close>\<close>

subsection \<open>Character classes and \<^verbatim>\<open>str.lower\<close> on ASCII\<close>

definition is_upper :: "char \<Rightarrow> bool" where
  "is_upper c = (let n = (of_char c :: nat) in 65 \<le> n \<and> n \<le> 90)"

definition is_lower :: "char \<Rightarrow> bool" where
  "is_lower c = (let n = (of_char c :: nat) in 97 \<le> n \<and> n \<le> 122)"

definition is_alpha :: "char \<Rightarrow> bool" where
  "is_alpha c = (is_lower c \<or> is_upper c)"

definition is_digit :: "char \<Rightarrow> bool" where
  "is_digit c = (let n = (of_char c :: nat) in 48 \<le> n \<and> n \<le> 57)"

definition is_wordchar :: "char \<Rightarrow> bool" where
  "is_wordchar c = (is_alpha c \<or> is_digit c \<or> c = CHR ''_'')"

definition lower_char :: "char \<Rightarrow> char" where
  "lower_char c = (if is_upper c then char_of (of_char c + (32 :: nat)) else c)"

definition str_lower :: "string \<Rightarrow> string" where
  "str_lower s = map lower_char s"

subsection \<open>\<^verbatim>\<open>extract_keywords\<close>\<close>

text \<open>
  \<^verbatim>\<open>re.findall(r'\b[a-zA-Z]{3,}\b', s)\<close>, scanning from the left;
  \<open>prev\<close> tells whether the character before the current position is a word
  character (\<^verbatim>\<open>\w\<close>), which is false at the start of the string. A match at the
  current position needs a word boundary there, then the whole run of letters (a
  shorter one would end between two letters, where there is no boundary), at least three
  of them, then a boundary again: the end of the string or a character that is not a
  word character. After a match the search goes on behind it; otherwise one character
  further.
\<close>

function find_words :: "bool \<Rightarrow> string \<Rightarrow> string list" where
  "find_words prev [] = []"
| "find_words prev (c # cs) =
     (if prev \<noteq> is_wordchar c \<and> 3 \<le> length (takeWhile is_alpha (c # cs))
         \<and> (case dropWhile is_alpha (c # cs) of [] \<Rightarrow> True | d # _ \<Rightarrow> \<not> is_wordchar d)
      then takeWhile is_alpha (c # cs) # find_words True (dropWhile is_alpha (c # cs))
      else find_words (is_wordchar c) cs)"
  by pat_completeness auto
termination
proof (relation "measure (\<lambda>(prev, s). length s)")
  show "wf (measure (\<lambda>(prev, s). length s))" by simp
next
  fix prev :: bool and c :: char and cs :: string
  assume "prev \<noteq> is_wordchar c \<and> 3 \<le> length (takeWhile is_alpha (c # cs))
         \<and> (case dropWhile is_alpha (c # cs) of [] \<Rightarrow> True | d # _ \<Rightarrow> \<not> is_wordchar d)"
  then have "is_alpha c" by (auto split: if_splits)
  then have "length (dropWhile is_alpha (c # cs)) \<le> length cs"
    by (simp add: length_dropWhile_le)
  then show "((True, dropWhile is_alpha (c # cs)), (prev, c # cs)) \<in> measure (\<lambda>(prev, s). length s)"
    by simp
next
  fix prev :: bool and c :: char and cs :: string
  show "((is_wordchar c, cs), (prev, c # cs)) \<in> measure (\<lambda>(prev, s). length s)"
    by simp
qed

text \<open>The hard-coded stopword set.\<close>

definition stopwords :: "string list" where
  "stopwords = [
     ''the'', ''a'', ''an'', ''is'', ''are'', ''was'', ''were'', ''be'', ''been'', ''being'',
     ''have'', ''has'', ''had'', ''do'', ''does'', ''did'', ''will'', ''would'', ''could'',
     ''should'', ''may'', ''might'', ''can'', ''must'', ''shall'', ''to'', ''of'', ''in'',
     ''for'', ''on'', ''with'', ''at'', ''by'', ''from'', ''as'', ''into'', ''through'',
     ''during'', ''before'', ''after'', ''above'', ''below'', ''between'', ''under'',
     ''again'', ''further'', ''then'', ''once'', ''here'', ''there'', ''when'', ''where'',
     ''why'', ''how'', ''all'', ''each'', ''few'', ''more'', ''most'', ''other'', ''some'',
     ''such'', ''no'', ''nor'', ''not'', ''only'', ''own'', ''same'', ''so'', ''than'',
     ''too'', ''very'', ''just'', ''and'', ''but'', ''if'', ''or'', ''because'', ''until'',
     ''while'', ''this'', ''that'', ''these'', ''those'', ''i'', ''you'', ''he'', ''she'',
     ''it'', ''we'', ''they'', ''what'', ''which'', ''who'', ''whom'', ''its'', ''his'',
     ''her'', ''their'', ''our'', ''my'', ''your'', ''up'', ''out'', ''about'', ''over'']"

text \<open>
  The dictionary \<^verbatim>\<open>freq\<close> keeps its keys in insertion order, so it is an
  association list; \<open>freq_incr\<close> is \<^verbatim>\<open>freq[w] = freq.get(w, 0) + 1\<close>.
\<close>

fun freq_incr :: "(string \<times> nat) list \<Rightarrow> string \<Rightarrow> (string \<times> nat) list" where
  "freq_incr [] w = [(w, 0 + 1)]"
| "freq_incr ((k, n) # kvs) w =
     (if k = w then (k, n + 1) # kvs else (k, n) # freq_incr kvs w)"

definition count_freq :: "string list \<Rightarrow> (string \<times> nat) list" where
  "count_freq ws = foldl freq_incr [] ws"

text \<open>
  \<^verbatim>\<open>sorted(items, key=lambda x: x[1], reverse=True)\<close>: a stable sort by
  descending count, that is a stable ascending sort by the negated count.
\<close>

definition sorted_desc :: "(string \<times> nat) list \<Rightarrow> (string \<times> nat) list" where
  "sorted_desc items = sort_key (\<lambda>x. - int (snd x)) items"

text \<open>The list \<^verbatim>\<open>words\<close> of \<^verbatim>\<open>extract_keywords\<close>.\<close>

definition tokens :: "string \<Rightarrow> string list" where
  "tokens text = find_words False (str_lower text)"

text \<open>\<^verbatim>\<open>extract_keywords(text, max_keywords=5)\<close>.\<close>

definition extract_keywords :: "string \<Rightarrow> int \<Rightarrow> string list" where
  "extract_keywords text max_keywords =
     (let words = tokens text;
          filtered = filter (\<lambda>w. w \<notin> set stopwords) words;
          freq = count_freq filtered;
          sorted_words = sorted_desc freq
      in map fst (py_slice sorted_words 0 max_keywords))"

subsection \<open>JSON values, exceptions and HTTP\<close>

text \<open>
  What \<^verbatim>\<open>json.load\<close> and \<^verbatim>\<open>response.json()\<close> deliver. A number is a
  Python \<^verbatim>\<open>int\<close> or a \<^verbatim>\<open>float\<close>; floats are a type parameter \<open>'f\<close>, since the
  scripts never compute with them. An object is an association list, looked up with
  \<open>map_of\<close>.
\<close>

datatype 'f number = PyInt int | PyFloat 'f

datatype 'f json =
    JNull
  | JBool bool
  | JNum "'f number"
  | JStr string
  | JArr "'f json list"
  | JObj "(string \<times> 'f json) list"

text \<open>
  The exceptions that the modelled statements raise. All of them are caught by
  \<^verbatim>\<open>except Exception\<close>; \<^verbatim>\<open>sys.exit\<close> is modelled apart.
\<close>

datatype exn =
    AttributeError | TypeError | ValueError | KeyError | IndexError | ImportError
  | OverflowError | OSError | RequestException | HTTPError | JSONDecodeError

text \<open>
  Sequencing of two steps of which the first may raise.
\<close>

definition ebind :: "exn + 'a \<Rightarrow> ('a \<Rightarrow> exn + 'b) \<Rightarrow> exn + 'b" where
  "ebind r f = (case r of Inl e \<Rightarrow> Inl e | Inr v \<Rightarrow> f v)"

text \<open>
  The truth value Python's \<^verbatim>\<open>if\<close> gives a JSON value.
\<close>

fun truthy :: "('f::zero) json \<Rightarrow> bool" where
  "truthy JNull = False"
| "truthy (JBool b) = b"
| "truthy (JNum (PyInt i)) = (i \<noteq> 0)"
| "truthy (JNum (PyFloat x)) = (x \<noteq> 0)"
| "truthy (JStr s) = (s \<noteq> [])"
| "truthy (JArr xs) = (xs \<noteq> [])"
| "truthy (JObj kvs) = (kvs \<noteq> [])"

text \<open>
  \<^verbatim>\<open>v.get(k, d)\<close>: only a \<^verbatim>\<open>dict\<close> has the method.
\<close>

fun dict_get :: "'f json \<Rightarrow> string \<Rightarrow> 'f json \<Rightarrow> exn + 'f json" where
  "dict_get (JObj kvs) k d = Inr (case map_of kvs k of None \<Rightarrow> d | Some v \<Rightarrow> v)"
| "dict_get _ k d = Inl AttributeError"

text \<open>
  \<^verbatim>\<open>v[k]\<close> for a string \<open>k\<close>, \<^verbatim>\<open>v[0]\<close>, and the items that
  \<^verbatim>\<open>for x in v\<close> visits.
\<close>

fun getitem_key :: "'f json \<Rightarrow> string \<Rightarrow> exn + 'f json" where
  "getitem_key (JObj kvs) k = (case map_of kvs k of None \<Rightarrow> Inl KeyError | Some v \<Rightarrow> Inr v)"
| "getitem_key _ k = Inl TypeError"

fun getitem_0 :: "'f json \<Rightarrow> exn + 'f json" where
  "getitem_0 (JArr []) = Inl IndexError"
| "getitem_0 (JArr (x # xs)) = Inr x"
| "getitem_0 (JStr []) = Inl IndexError"
| "getitem_0 (JStr (c # cs)) = Inr (JStr [c])"
| "getitem_0 (JObj kvs) = Inl KeyError"
| "getitem_0 _ = Inl TypeError"

fun py_iter :: "'f json \<Rightarrow> exn + 'f json list" where
  "py_iter (JArr xs) = Inr xs"
| "py_iter (JStr s) = Inr (map (\<lambda>c. JStr [c]) s)"
| "py_iter (JObj kvs) = Inr (map (\<lambda>kv. JStr (fst kv)) kvs)"
| "py_iter _ = Inl TypeError"

text \<open>
  \<^verbatim>\<open>s.strip()\<close>, a method of strings only.
\<close>

definition str_strip :: "string \<Rightarrow> string" where
  "str_strip s = rev (dropWhile is_space (rev (dropWhile is_space s)))"

fun strip_method :: "'f json \<Rightarrow> exn + string" where
  "strip_method (JStr s) = Inr (str_strip s)"
| "strip_method _ = Inl AttributeError"

text \<open>
  A call of \<^verbatim>\<open>requests.post\<close> or \<^verbatim>\<open>requests.get\<close>, the part of an answer
  that the scripts read (\<open>json_body\<close> is \<open>None\<close> when the body is not JSON), and the
  world outside: the three environment variables and the answer, or the exception, that
  a request meets after the requests issued before it.
\<close>

record 'f request =
  rq_method :: string
  rq_url :: string
  rq_headers :: "(string \<times> string) list"
  rq_params :: "(string \<times> 'f json) list"
  rq_json :: "'f json option"

record 'f response =
  status_code :: int
  json_body :: "'f json option"

record 'f world =
  OPENAI_API_KEY :: "string option"
  SUPABASE_URL :: "string option"
  SUPABASE_KEY :: "string option"
  http :: "'f request list \<Rightarrow> 'f request \<Rightarrow> exn + 'f response"

text \<open>
  \<^verbatim>\<open>not VAR\<close> for an environment variable, and its rendering in an f-string.
\<close>

definition unset :: "string option \<Rightarrow> bool" where
  "unset v = (v = None \<or> v = Some [])"

definition env_str :: "string option \<Rightarrow> string" where
  "env_str v = (case v of None \<Rightarrow> ''None'' | Some s \<Rightarrow> s)"

text \<open>
  Issuing a request appends it to the trace of requests, the state that every function
  with an external call passes on.
\<close>

definition requests_call ::
  "'f world \<Rightarrow> 'f request \<Rightarrow> 'f request list \<Rightarrow> (exn + 'f response) \<times> 'f request list" where
  "requests_call w rq tr = (http w tr rq, tr @ [rq])"

definition raise_for_status :: "'f response \<Rightarrow> exn + unit" where
  "raise_for_status r =
     (if 400 \<le> status_code r \<and> status_code r < 600 then Inl HTTPError else Inr ())"

definition response_json :: "'f response \<Rightarrow> exn + 'f json" where
  "response_json r = (case json_body r of None \<Rightarrow> Inl JSONDecodeError | Some v \<Rightarrow> Inr v)"

subsection \<open>The live context script\<close>

text \<open>
  \<^verbatim>\<open>load_transcript\<close>, applied to the parsed content of the transcript file.
\<close>

definition load_transcript :: "'f json \<Rightarrow> exn + 'f json" where
  "load_transcript data = dict_get data ''segments'' (JArr [])"

definition embedding_request :: "'f world \<Rightarrow> string \<Rightarrow> 'f request" where
  "embedding_request w text =
     \<lparr>rq_method = ''POST'',
      rq_url = ''https://api.openai.com/v1/embeddings'',
      rq_headers = [(''Authorization'', ''Bearer '' @ env_str (OPENAI_API_KEY w)),
                    (''Content-Type'', ''application/json'')],
      rq_params = [],
      rq_json = Some (JObj [(''input'', JStr text), (''model'', JStr ''text-embedding-3-small'')])\<rparr>"

definition get_embedding ::
  "'f world \<Rightarrow> string \<Rightarrow> 'f request list \<Rightarrow> (exn + 'f json) \<times> 'f request list" where
  "get_embedding w text tr =
     (if unset (OPENAI_API_KEY w) then (Inr (JArr []), tr)
      else case requests_call w (embedding_request w text) tr of
          (Inl e, tr') \<Rightarrow> (Inl e, tr')
        | (Inr response, tr') \<Rightarrow>
            (ebind (raise_for_status response) (\<lambda>_.
             ebind (response_json response) (\<lambda>j.
             ebind (getitem_key j ''data'') (\<lambda>d.
             ebind (getitem_0 d) (\<lambda>x. getitem_key x ''embedding'')))), tr'))"

definition fallback_request :: "'f world \<Rightarrow> string \<Rightarrow> 'f number \<Rightarrow> 'f request" where
  "fallback_request w doc_id top_n =
     \<lparr>rq_method = ''GET'',
      rq_url = env_str (SUPABASE_URL w) @ ''/rest/v1/document_chunks'',
      rq_headers = [(''apikey'', env_str (SUPABASE_KEY w)),
                    (''Authorization'', ''Bearer '' @ env_str (SUPABASE_KEY w))],
      rq_params = [(''doc_id'', JStr (''eq.'' @ doc_id)),
                   (''select'', JStr ''content,chunk_index''),
                   (''limit'', JNum top_n)],
      rq_json = None\<rparr>"

definition fallback_search ::
  "'f world \<Rightarrow> string \<Rightarrow> 'f number \<Rightarrow> 'f request list \<Rightarrow> (exn + 'f json) \<times> 'f request list" where
  "fallback_search w doc_id top_n tr =
     (case requests_call w (fallback_request w doc_id top_n) tr of
        (Inl e, tr') \<Rightarrow> (Inl e, tr')
      | (Inr response, tr') \<Rightarrow>
          (if status_code response = 200 then (response_json response, tr')
           else (Inr (JArr []), tr')))"

definition rpc_request :: "'f world \<Rightarrow> 'f json \<Rightarrow> string \<Rightarrow> 'f number \<Rightarrow> 'f request" where
  "rpc_request w query_embedding doc_id top_n =
     \<lparr>rq_method = ''POST'',
      rq_url = env_str (SUPABASE_URL w) @ ''/rest/v1/rpc/match_doc_chunks'',
      rq_headers = [(''apikey'', env_str (SUPABASE_KEY w)),
                    (''Authorization'', ''Bearer '' @ env_str (SUPABASE_KEY w)),
                    (''Content-Type'', ''application/json'')],
      rq_params = [],
      rq_json = Some (JObj [(''query_embedding'', query_embedding),
                            (''match_count'', JNum top_n),
                            (''filter_doc_id'', JStr doc_id)])\<rparr>"

definition semantic_search ::
  "'f world \<Rightarrow> 'f json \<Rightarrow> string \<Rightarrow> 'f number \<Rightarrow> 'f request list
     \<Rightarrow> (exn + 'f json) \<times> 'f request list" where
  "semantic_search w query_embedding doc_id top_n tr =
     (if unset (SUPABASE_URL w) \<or> unset (SUPABASE_KEY w) then (Inr (JArr []), tr)
      else case requests_call w (rpc_request w query_embedding doc_id top_n) tr of
          (Inl e, tr') \<Rightarrow> (Inl e, tr')
        | (Inr response, tr') \<Rightarrow>
            (if status_code response = 200 then (response_json response, tr')
             else fallback_search w doc_id top_n tr'))"

text \<open>
  The \<^verbatim>\<open>try\<close> block of \<^verbatim>\<open>process_live_context\<close>: any exception of the embedding
  or the search leaves \<^verbatim>\<open>matches = []\<close>.
\<close>

definition find_matches ::
  "('f::zero) world \<Rightarrow> string \<Rightarrow> string \<Rightarrow> 'f number \<Rightarrow> 'f request list
     \<Rightarrow> 'f json \<times> 'f request list" where
  "find_matches w text doc_id top_n tr =
     (case get_embedding w text tr of
        (Inl e, tr') \<Rightarrow> (JArr [], tr')
      | (Inr embedding, tr') \<Rightarrow>
          (if truthy embedding
           then (case semantic_search w embedding doc_id top_n tr' of
                   (Inl e, tr'') \<Rightarrow> (JArr [], tr'')
                 | (Inr matches, tr'') \<Rightarrow> (matches, tr''))
           else (JArr [], tr')))"

text \<open>
  \<^verbatim>\<open>seg.get(k)\<close> on a segment that is a \<^verbatim>\<open>dict\<close>, and the dictionary that is
  printed with \<^verbatim>\<open>json.dumps\<close>; a printed line is modelled by its JSON value.
\<close>

definition get_or_none :: "(string \<times> 'f json) list \<Rightarrow> string \<Rightarrow> 'f json" where
  "get_or_none kvs k = (case map_of kvs k of None \<Rightarrow> JNull | Some v \<Rightarrow> v)"

definition result_line :: "(string \<times> 'f json) list \<Rightarrow> string \<Rightarrow> string list \<Rightarrow> 'f json \<Rightarrow> 'f json" where
  "result_line seg text keywords matches =
     JObj [(''segment'', JObj [(''start'', get_or_none seg ''start''),
                               (''end'', get_or_none seg ''end''),
                               (''speaker'', get_or_none seg ''speaker''),
                               (''text'', JStr text)]),
           (''keywords'', JArr (map JStr keywords)),
           (''context_matches'', matches)]"

text \<open>
  One iteration of the loop over the segments: the exception that ends the script, or
  the line printed, if any. Standard output is the list of lines printed so far.
\<close>

definition segment_step ::
  "('f::zero) world \<Rightarrow> string \<Rightarrow> 'f number \<Rightarrow> 'f json \<Rightarrow> 'f request list
     \<Rightarrow> (exn + 'f json option) \<times> 'f request list" where
  "segment_step w doc_id top_n seg tr =
     (case seg of
        JObj kvs \<Rightarrow>
          (case (case map_of kvs ''text'' of None \<Rightarrow> JStr '''' | Some v \<Rightarrow> v) of
             JStr text \<Rightarrow>
               (if str_strip text = [] then (Inr None, tr)
                else (case find_matches w text doc_id top_n tr of
                        (matches, tr') \<Rightarrow>
                          (Inr (Some (result_line kvs text (extract_keywords text 5) matches)), tr')))
           | _ \<Rightarrow> (Inl AttributeError, tr))
      | _ \<Rightarrow> (Inl AttributeError, tr))"

fun segment_loop ::
  "('f::zero) world \<Rightarrow> string \<Rightarrow> 'f number \<Rightarrow> 'f json list \<Rightarrow> 'f json list \<Rightarrow> 'f request list
     \<Rightarrow> (exn + unit) \<times> 'f json list \<times> 'f request list" where
  "segment_loop w doc_id top_n [] out tr = (Inr (), out, tr)"
| "segment_loop w doc_id top_n (seg # segs) out tr =
     (case segment_step w doc_id top_n seg tr of
        (Inl e, tr') \<Rightarrow> (Inl e, out, tr')
      | (Inr None, tr') \<Rightarrow> segment_loop w doc_id top_n segs out tr'
      | (Inr (Some line), tr') \<Rightarrow> segment_loop w doc_id top_n segs (out @ [line]) tr')"

definition process_live_context ::
  "('f::zero) world \<Rightarrow> 'f json \<Rightarrow> string \<Rightarrow> 'f number \<Rightarrow> 'f request list
     \<Rightarrow> (exn + unit) \<times> 'f json list \<times> 'f request list" where
  "process_live_context w data doc_id top_n tr =
     (case ebind (load_transcript data) py_iter of
        Inl e \<Rightarrow> (Inl e, [], tr)
      | Inr segments \<Rightarrow> segment_loop w doc_id top_n segments [] tr)"

section \<open>Adversarial analysis: \<^verbatim>\<open>adversarial_analysis.py\<close>\<close>

text \<open>
  Python built-ins on floats and on values that this script only passes on: the float
  literal \<^verbatim>\<open>0.3\<close>, \<^verbatim>\<open>format(x, '.1f')\<close> of a number in the range of the
  floats, and \<^verbatim>\<open>str(v)\<close> of a value that is not a string. They are parameters
  of the model.
\<close>

record 'f builtins =
  float_0_3 :: "'f"
  format_1f :: "'f number \<Rightarrow> string"
  str_of :: "'f json \<Rightarrow> string"

definition newline :: string where
  "newline = [CHR 0x0A]"

text \<open>\<^verbatim>\<open>len(v)\<close>.\<close>

fun py_len :: "'f json \<Rightarrow> exn + nat" where
  "py_len (JArr xs) = Inr (length xs)"
| "py_len (JStr s) = Inr (length s)"
| "py_len (JObj kvs) = Inr (length kvs)"
| "py_len _ = Inl TypeError"

text \<open>The items of a list that \<^verbatim>\<open>sep.join\<close> accepts: strings only.\<close>

fun join_items :: "'f json list \<Rightarrow> exn + string list" where
  "join_items [] = Inr []"
| "join_items (JStr s # vs) = ebind (join_items vs) (\<lambda>ss. Inr (s # ss))"
| "join_items (_ # vs) = Inl TypeError"

text \<open>
  \<^verbatim>\<open>f"{v}"\<close> and \<^verbatim>\<open>f"{v:.1f}"\<close>: the format \<^verbatim>\<open>.1f\<close> takes a number (a
  \<^verbatim>\<open>bool\<close> counts as 1 or 0), raises \<^verbatim>\<open>ValueError\<close> on a string and
  \<^verbatim>\<open>TypeError\<close> on anything else. An \<^verbatim>\<open>int\<close> is converted to a float first,
  which raises \<^verbatim>\<open>OverflowError\<close> when it rounds to a power of two beyond the
  largest float, that is from \<open>2 ^ 1024 - 2 ^ 970\<close> on.
\<close>

definition float_overflow :: "int \<Rightarrow> bool" where
  "float_overflow i = (2 ^ 1024 - 2 ^ 970 \<le> \<bar>i\<bar>)"

definition fmt_str :: "'f builtins \<Rightarrow> 'f json \<Rightarrow> string" where
  "fmt_str py v = (case v of JStr s \<Rightarrow> s | _ \<Rightarrow> str_of py v)"

fun fmt_1f :: "'f builtins \<Rightarrow> 'f json \<Rightarrow> exn + string" where
  "fmt_1f py (JNum (PyInt i)) =
     (if float_overflow i then Inl OverflowError else Inr (format_1f py (PyInt i)))"
| "fmt_1f py (JNum (PyFloat x)) = Inr (format_1f py (PyFloat x))"
| "fmt_1f py (JBool b) = Inr (format_1f py (PyInt (if b then 1 else 0)))"
| "fmt_1f py (JStr s) = Inl ValueError"
| "fmt_1f py _ = Inl TypeError"

text \<open>\<^verbatim>\<open>get_document_chunks\<close>.\<close>

definition chunks_request :: "'f world \<Rightarrow> string \<Rightarrow> 'f request" where
  "chunks_request w doc_id =
     \<lparr>rq_method = ''GET'',
      rq_url = env_str (SUPABASE_URL w) @ ''/rest/v1/document_chunks'',
      rq_headers = [(''apikey'', env_str (SUPABASE_KEY w)),
                    (''Authorization'', ''Bearer '' @ env_str (SUPABASE_KEY w))],
      rq_params = [(''doc_id'', JStr (''eq.'' @ doc_id)),
                   (''select'', JStr ''content''),
                   (''order'', JStr ''chunk_index'')],
      rq_json = None\<rparr>"

fun chunk_contents :: "'f json list \<Rightarrow> exn + 'f json list" where
  "chunk_contents [] = Inr []"
| "chunk_contents (chunk # rest) =
     ebind (getitem_key chunk ''content'') (\<lambda>c.
     ebind (chunk_contents rest) (\<lambda>cs. Inr (c # cs)))"

definition get_document_chunks ::
  "'f world \<Rightarrow> string \<Rightarrow> 'f request list \<Rightarrow> (exn + 'f json list) \<times> 'f request list" where
  "get_document_chunks w doc_id tr =
     (if unset (SUPABASE_URL w) \<or> unset (SUPABASE_KEY w) then (Inr [], tr)
      else case requests_call w (chunks_request w doc_id) tr of
          (Inl e, tr') \<Rightarrow> (Inl e, tr')
        | (Inr response, tr') \<Rightarrow>
            (if status_code response = 200
             then (ebind (response_json response) (\<lambda>j.
                   ebind (py_iter j) chunk_contents), tr')
             else (Inr [], tr')))"

text \<open>\<^verbatim>\<open>format_transcript\<close>: one line per segment.\<close>

definition format_segment :: "'f builtins \<Rightarrow> 'f json \<Rightarrow> exn + string" where
  "format_segment py seg =
     ebind (dict_get seg ''speaker'' (JStr ''UNKNOWN'')) (\<lambda>speaker.
     ebind (dict_get seg ''text'' (JStr '''')) (\<lambda>text.
     ebind (dict_get seg ''start'' (JNum (PyInt 0))) (\<lambda>start.
     ebind (fmt_1f py start) (\<lambda>t.
       Inr (''['' @ t @ ''s] '' @ fmt_str py speaker @ '': '' @ fmt_str py text)))))"

fun format_lines :: "'f builtins \<Rightarrow> 'f json list \<Rightarrow> exn + string list" where
  "format_lines py [] = Inr []"
| "format_lines py (seg # segs) =
     ebind (format_segment py seg) (\<lambda>l.
     ebind (format_lines py segs) (\<lambda>ls. Inr (l # ls)))"

definition format_transcript :: "'f builtins \<Rightarrow> 'f json \<Rightarrow> exn + string" where
  "format_transcript py segments =
     ebind (py_iter segments) (\<lambda>segs.
     ebind (format_lines py segs) (\<lambda>lines. Inr (str_join newline lines)))"

text \<open>
  \<^verbatim>\<open>call_openai\<close>. Without a key it returns a message, which starts with the three
  bytes of a cross mark in UTF-8.
\<close>

definition chat_request :: "'f builtins \<Rightarrow> 'f world \<Rightarrow> string \<Rightarrow> string \<Rightarrow> 'f request" where
  "chat_request py w system_prompt user_prompt =
     \<lparr>rq_method = ''POST'',
      rq_url = ''https://api.openai.com/v1/chat/completions'',
      rq_headers = [(''Authorization'', ''Bearer '' @ env_str (OPENAI_API_KEY w)),
                    (''Content-Type'', ''application/json'')],
      rq_params = [],
      rq_json = Some (JObj [
        (''model'', JStr ''gpt-4o''),
        (''messages'', JArr [
            JObj [(''role'', JStr ''system''), (''content'', JStr system_prompt)],
            JObj [(''role'', JStr ''user''), (''content'', JStr user_prompt)]]),
        (''temperature'', JNum (PyFloat (float_0_3 py))),
        (''max_tokens'', JNum (PyInt 2000))])\<rparr>"

definition call_openai ::
  "'f builtins \<Rightarrow> 'f world \<Rightarrow> string \<Rightarrow> string \<Rightarrow> 'f request list
     \<Rightarrow> (exn + 'f json) \<times> 'f request list" where
  "call_openai py w system_prompt user_prompt tr =
     (if unset (OPENAI_API_KEY w)
      then (Inr (JStr ([CHR 0xE2, CHR 0x9D, CHR 0x8C] @ '' OPENAI_API_KEY not set'')), tr)
      else case requests_call w (chat_request py w system_prompt user_prompt) tr of
          (Inl e, tr') \<Rightarrow> (Inl e, tr')
        | (Inr response, tr') \<Rightarrow>
            (ebind (raise_for_status response) (\<lambda>_.
             ebind (response_json response) (\<lambda>j.
             ebind (getitem_key j ''choices'') (\<lambda>cs.
             ebind (getitem_0 cs) (\<lambda>c.
             ebind (getitem_key c ''message'') (\<lambda>m. getitem_key m ''content''))))), tr'))"

text \<open>The three analyses, each with its fixed system prompt and its user prompt.\<close>

definition coherence_system_prompt :: string where
  "coherence_system_prompt = str_join newline
     [''You are an expert analyst checking for coherence and consistency.'',
     ''    Compare the transcript against the reference documents and identify:'',
     ''    1. Claims that are SUPPORTED by the documents'',
     ''    2. Claims that CONTRADICT the documents'',
     ''    3. Claims that are UNSUPPORTED (neither confirmed nor denied)'',
     ''    '',
     ''    Be specific and cite examples.'']"

definition coherence_user_prompt :: "string \<Rightarrow> string \<Rightarrow> string" where
  "coherence_user_prompt transcript_text doc_text =
     ''TRANSCRIPT:'' @ newline
     @ transcript_text
     @ newline @ newline @ ''REFERENCE DOCUMENTS:'' @ newline
     @ doc_text
     @ newline @ newline @ ''Analyze the coherence between the transcript and documents.''"

definition tone_deception_system_prompt :: string where
  "tone_deception_system_prompt = str_join newline
     [''You are an expert in communication analysis and behavioral psychology.'',
     ''    Analyze the transcript for:'',
     ''    1. Overall tone (confident, evasive, aggressive, defensive, etc.)'',
     ''    2. Potential deception indicators (hedging language, inconsistencies, deflection)'',
     ''    3. Emotional shifts throughout the conversation'',
     ''    4. Power dynamics between speakers'',
     ''    '',
     ''    Note: This is analytical, not accusatory. Flag patterns, not conclusions.'']"

definition tone_deception_user_prompt :: "string \<Rightarrow> string" where
  "tone_deception_user_prompt transcript_text =
     ''TRANSCRIPT:'' @ newline
     @ transcript_text
     @ newline @ newline @ ''Provide a detailed tone and behavioral analysis.''"

definition adversarial_system_prompt :: string where
  "adversarial_system_prompt = str_join newline
     [''You are a critical analyst preparing a devil's advocate summary.'',
     ''    Your job is to:'',
     ''    1. Summarize the key points of the conversation'',
     ''    2. Highlight potential weaknesses in arguments made'',
     ''    3. Identify missing information or gaps'',
     ''    4. List follow-up questions that should be asked'',
     ''    5. Note any red flags or areas requiring verification'',
     ''    '',
     ''    Be thorough but fair. The goal is due diligence, not character assassination.'']"

definition adversarial_user_prompt :: "string \<Rightarrow> string \<Rightarrow> string" where
  "adversarial_user_prompt transcript_text doc_text =
     ''TRANSCRIPT:'' @ newline
     @ transcript_text
     @ newline @ newline @ ''REFERENCE DOCUMENTS:'' @ newline
     @ doc_text
     @ newline @ newline @ ''Generate an adversarial analysis summary.''"
definition labelled ::
  "string \<Rightarrow> (exn + 'f json) \<times> 'f request list \<Rightarrow> (exn + 'f json) \<times> 'f request list" where
  "labelled type r =
     (case r of
        (Inl e, tr') \<Rightarrow> (Inl e, tr')
      | (Inr result, tr') \<Rightarrow> (Inr (JObj [(''type'', JStr type), (''analysis'', result)]), tr'))"

definition coherence_analysis ::
  "'f builtins \<Rightarrow> 'f world \<Rightarrow> string \<Rightarrow> string \<Rightarrow> 'f request list
     \<Rightarrow> (exn + 'f json) \<times> 'f request list" where
  "coherence_analysis py w transcript_text doc_text tr =
     labelled ''coherence''
       (call_openai py w coherence_system_prompt
          (coherence_user_prompt transcript_text doc_text) tr)"

definition tone_deception_analysis ::
  "'f builtins \<Rightarrow> 'f world \<Rightarrow> string \<Rightarrow> 'f request list
     \<Rightarrow> (exn + 'f json) \<times> 'f request list" where
  "tone_deception_analysis py w transcript_text tr =
     labelled ''tone_deception''
       (call_openai py w tone_deception_system_prompt
          (tone_deception_user_prompt transcript_text) tr)"

definition adversarial_summary ::
  "'f builtins \<Rightarrow> 'f world \<Rightarrow> string \<Rightarrow> string \<Rightarrow> 'f request list
     \<Rightarrow> (exn + 'f json) \<times> 'f request list" where
  "adversarial_summary py w transcript_text doc_text tr =
     labelled ''adversarial_summary''
       (call_openai py w adversarial_system_prompt
          (adversarial_user_prompt transcript_text doc_text) tr)"

text \<open>
  \<^verbatim>\<open>run_full_analysis\<close>, in the three stages of its body. \<open>load_documents\<close> is the
  block under \<^verbatim>\<open>if doc_id\<close>: the text of the documents and the number of chunks;
  \<open>doc_id\<close> is \<open>None\<close> when the option is not given. \<open>run_analyses\<close> builds the
  report and appends the three analyses; the report is printed and returned, so the
  result holds it twice, as the value and as the one line of standard output.
\<close>

definition load_documents ::
  "'f world \<Rightarrow> string option \<Rightarrow> 'f request list \<Rightarrow> (exn + string \<times> nat) \<times> 'f request list" where
  "load_documents w doc_id tr =
     (case doc_id of
        None \<Rightarrow> (Inr ('''', 0), tr)
      | Some d \<Rightarrow>
          (if d = [] then (Inr ('''', 0), tr)
           else case get_document_chunks w d tr of
               (Inl e, tr') \<Rightarrow> (Inl e, tr')
             | (Inr chunks, tr') \<Rightarrow>
                 (ebind (join_items chunks) (\<lambda>ss.
                    Inr (str_join (newline @ newline) ss, length chunks)), tr')))"

definition report :: "nat \<Rightarrow> nat \<Rightarrow> 'f json list \<Rightarrow> 'f json" where
  "report transcript_segments doc_chunks analyses =
     JObj [(''transcript_segments'', JNum (PyInt (int transcript_segments))),
           (''doc_chunks'', JNum (PyInt (int doc_chunks))),
           (''analyses'', JArr analyses)]"

definition run_analyses ::
  "'f builtins \<Rightarrow> 'f world \<Rightarrow> nat \<Rightarrow> nat \<Rightarrow> string \<Rightarrow> string \<Rightarrow> 'f request list
     \<Rightarrow> (exn + 'f json) \<times> 'f json list \<times> 'f request list" where
  "run_analyses py w transcript_segments doc_chunks transcript_text doc_text tr =
     (case coherence_analysis py w transcript_text doc_text tr of
        (Inl e, tr1) \<Rightarrow> (Inl e, [], tr1)
      | (Inr a1, tr1) \<Rightarrow>
     (case tone_deception_analysis py w transcript_text tr1 of
        (Inl e, tr2) \<Rightarrow> (Inl e, [], tr2)
      | (Inr a2, tr2) \<Rightarrow>
     (case adversarial_summary py w transcript_text doc_text tr2 of
        (Inl e, tr3) \<Rightarrow> (Inl e, [], tr3)
      | (Inr a3, tr3) \<Rightarrow>
          (Inr (report transcript_segments doc_chunks [a1, a2, a3]),
           [report transcript_segments doc_chunks [a1, a2, a3]], tr3))))"

definition run_full_analysis ::
  "'f builtins \<Rightarrow> 'f world \<Rightarrow> 'f json \<Rightarrow> string option \<Rightarrow> 'f request list
     \<Rightarrow> (exn + 'f json) \<times> 'f json list \<times> 'f request list" where
  "run_full_analysis py w data doc_id tr =
     (case ebind (load_transcript data) (\<lambda>segments.
           ebind (format_transcript py segments) (\<lambda>transcript_text.
           ebind (py_len segments) (\<lambda>n. Inr (transcript_text, n)))) of
        Inl e \<Rightarrow> (Inl e, [], tr)
      | Inr (transcript_text, n) \<Rightarrow>
          (case load_documents w doc_id tr of
             (Inl e, tr') \<Rightarrow> (Inl e, [], tr')
           | (Inr (doc_text, doc_chunks), tr') \<Rightarrow>
               run_analyses py w n doc_chunks transcript_text doc_text tr'))"

section \<open>Document ingestion, continued: the pipeline around \<^verbatim>\<open>chunk_text\<close>\<close>

text \<open>
  How a script ends when it does not return: by \<^verbatim>\<open>sys.exit\<close>, by an exception that
  nothing catches, or never. A line of standard output is a message or a JSON value
  printed with \<^verbatim>\<open>json.dumps\<close>.
\<close>

datatype abort = SystemExit int | Uncaught exn | Diverges

datatype 'f line = Text string | Json "'f json"

text \<open>
  The file system and the PDF library: whether a path exists, the content of a text file,
  the texts of the pages of a PDF file (\<open>pdfplumber\<close> is \<open>None\<close> when the library is
  not installed, and a page without text gives \<open>None\<close>), and the message of an
  exception.
\<close>

record files =
  path_exists :: "string \<Rightarrow> bool"
  read_text :: "string \<Rightarrow> exn + string"
  pdfplumber :: "(string \<Rightarrow> exn + string option list) option"
  exn_text :: "exn \<Rightarrow> string"

definition cross_mark :: string where
  "cross_mark = [CHR 0xE2, CHR 0x9D, CHR 0x8C]"

text \<open>
  The second component of \<^verbatim>\<open>os.path.splitext\<close> on a POSIX path: the part of the
  last path component from its last dot on, empty when there is no dot or only dots
  before it.
\<close>

definition splitext_ext :: "string \<Rightarrow> string" where
  "splitext_ext p =
     (let base = rev (takeWhile (\<lambda>c. c \<noteq> CHR ''/'') (rev p));
          ext = rev (takeWhile (\<lambda>c. c \<noteq> CHR ''.'') (rev base));
          stem = take (length base - length ext - 1) base
      in if CHR ''.'' \<notin> set base \<or> list_all (\<lambda>c. c = CHR ''.'') stem then []
         else CHR ''.'' # ext)"

fun pdf_text :: "string option list \<Rightarrow> string" where
  "pdf_text [] = []"
| "pdf_text (None # pages) = pdf_text pages"
| "pdf_text (Some page_text # pages) =
     (if page_text = [] then pdf_text pages else page_text @ newline @ pdf_text pages)"

definition extract_text :: "files \<Rightarrow> string \<Rightarrow> (abort + string) \<times> 'f line list" where
  "extract_text fs file_path =
     (let ext = str_lower (splitext_ext file_path) in
      if ext = ''.txt'' then
        (case read_text fs file_path of
           Inl e \<Rightarrow> (Inl (Uncaught e), [])
         | Inr content \<Rightarrow> (Inr content, []))
      else if ext = ''.pdf'' then
        (case pdfplumber fs of
           None \<Rightarrow>
             (Inl (SystemExit 1),
              [Text (cross_mark @ '' pdfplumber not installed. Install with: pip install pdfplumber'')])
         | Some pages_of \<Rightarrow>
             (case pages_of file_path of
                Inl e \<Rightarrow>
                  (if e = ImportError
                   then (Inl (SystemExit 1),
                         [Text (cross_mark @ '' pdfplumber not installed. Install with: pip install pdfplumber'')])
                   else (Inl (Uncaught e), []))
              | Inr pages \<Rightarrow> (Inr (pdf_text pages), [])))
      else (Inl (SystemExit 1), [Text (cross_mark @ '' Unsupported file type: '' @ ext)]))"

definition embeddings_request :: "'f world \<Rightarrow> string list \<Rightarrow> 'f request" where
  "embeddings_request w texts =
     \<lparr>rq_method = ''POST'',
      rq_url = ''https://api.openai.com/v1/embeddings'',
      rq_headers = [(''Authorization'', ''Bearer '' @ env_str (OPENAI_API_KEY w)),
                    (''Content-Type'', ''application/json'')],
      rq_params = [],
      rq_json = Some (JObj [(''input'', JArr (map JStr texts)),
                            (''model'', JStr ''text-embedding-3-small'')])\<rparr>"

fun item_embeddings :: "'f json list \<Rightarrow> exn + 'f json list" where
  "item_embeddings [] = Inr []"
| "item_embeddings (item # rest) =
     ebind (getitem_key item ''embedding'') (\<lambda>e.
     ebind (item_embeddings rest) (\<lambda>es. Inr (e # es)))"

definition get_embeddings ::
  "files \<Rightarrow> 'f world \<Rightarrow> string list \<Rightarrow> 'f request list
     \<Rightarrow> (abort + 'f json list) \<times> 'f line list \<times> 'f request list" where
  "get_embeddings fs w texts tr =
     (if unset (OPENAI_API_KEY w)
      then (Inl (SystemExit 1), [Text (cross_mark @ '' OPENAI_API_KEY not set in environment'')], tr)
      else case requests_call w (embeddings_request w texts) tr of
        (r, tr') \<Rightarrow>
          (case ebind r (\<lambda>response.
                ebind (raise_for_status response) (\<lambda>_.
                ebind (response_json response) (\<lambda>data.
                ebind (getitem_key data ''data'') (\<lambda>items.
                ebind (py_iter items) item_embeddings)))) of
             Inl e \<Rightarrow>
               (Inl (SystemExit 1),
                [Text (cross_mark @ '' Embedding API error: '' @ exn_text fs e)], tr')
           | Inr embeddings \<Rightarrow> (Inr embeddings, [], tr')))"

definition insert_request :: "'f world \<Rightarrow> string \<Rightarrow> nat \<Rightarrow> string \<Rightarrow> 'f json \<Rightarrow> 'f request" where
  "insert_request w doc_id i chunk embedding =
     \<lparr>rq_method = ''POST'',
      rq_url = env_str (SUPABASE_URL w) @ ''/rest/v1/document_chunks'',
      rq_headers = [(''apikey'', env_str (SUPABASE_KEY w)),
                    (''Authorization'', ''Bearer '' @ env_str (SUPABASE_KEY w)),
                    (''Content-Type'', ''application/json''),
                    (''Prefer'', ''return=minimal'')],
      rq_params = [],
      rq_json = Some (JObj [(''doc_id'', JStr doc_id),
                            (''chunk_index'', JNum (PyInt (int i))),
                            (''content'', JStr chunk),
                            (''embedding'', embedding)])\<rparr>"

text \<open>
  The loop of \<^verbatim>\<open>store_chunks_in_supabase\<close> over \<^verbatim>\<open>enumerate(zip(chunks, embeddings))\<close>.
  An answer with another status than 200, 201 or 204 only writes a warning to the
  standard error stream, which is not modelled.
\<close>

fun store_rows ::
  "'f world \<Rightarrow> string \<Rightarrow> nat \<Rightarrow> (string \<times> 'f json) list \<Rightarrow> 'f request list
     \<Rightarrow> (exn + unit) \<times> 'f request list" where
  "store_rows w doc_id i [] tr = (Inr (), tr)"
| "store_rows w doc_id i ((chunk, embedding) # rest) tr =
     (case requests_call w (insert_request w doc_id i chunk embedding) tr of
        (Inl e, tr') \<Rightarrow> (Inl e, tr')
      | (Inr response, tr') \<Rightarrow> store_rows w doc_id (i + 1) rest tr')"

definition store_chunks_in_supabase ::
  "'f world \<Rightarrow> string \<Rightarrow> string list \<Rightarrow> 'f json list \<Rightarrow> 'f request list
     \<Rightarrow> (abort + unit) \<times> 'f line list \<times> 'f request list" where
  "store_chunks_in_supabase w doc_id chunks embeddings tr =
     (if unset (SUPABASE_URL w) \<or> unset (SUPABASE_KEY w)
      then (Inl (SystemExit 1),
            [Text (cross_mark @ '' SUPABASE_URL or SUPABASE_KEY not set in environment'')], tr)
      else case store_rows w doc_id 0 (zip chunks embeddings) tr of
          (Inl e, tr') \<Rightarrow> (Inl (SystemExit 1), [], tr')
        | (Inr _, tr') \<Rightarrow> (Inr (), [], tr'))"

text \<open>
  \<^verbatim>\<open>ingest_document\<close>: the value returned, or how the script ends, the lines printed
  to standard output, and the requests issued.
\<close>

definition ingest_result :: "string \<Rightarrow> nat \<Rightarrow> 'f json" where
  "ingest_result doc_id n =
     JObj [(''doc_id'', JStr doc_id),
           (''chunks_created'', JNum (PyInt (int n))),
           (''status'', JStr ''success'')]"

definition ingest_document ::
  "files \<Rightarrow> 'f world \<Rightarrow> string \<Rightarrow> string \<Rightarrow> 'f request list
     \<Rightarrow> (abort + 'f json) \<times> 'f line list \<times> 'f request list" where
  "ingest_document fs w file_path doc_id tr =
     (case extract_text fs file_path of
        (Inl a, out) \<Rightarrow> (Inl a, out, tr)
      | (Inr text, out) \<Rightarrow>
     (case chunk_text text 500 50 of
        None \<Rightarrow> (Inl Diverges, out, tr)
      | Some chunks \<Rightarrow>
     (case get_embeddings fs w chunks tr of
        (Inl a, out1, tr1) \<Rightarrow> (Inl a, out @ out1, tr1)
      | (Inr embeddings, out1, tr1) \<Rightarrow>
     (case store_chunks_in_supabase w doc_id chunks embeddings tr1 of
        (Inl a, out2, tr2) \<Rightarrow> (Inl a, out @ out1 @ out2, tr2)
      | (Inr _, out2, tr2) \<Rightarrow>
          (Inr (ingest_result doc_id (length chunks)),
           out @ out1 @ out2 @ [Json (ingest_result doc_id (length chunks))], tr2)))))"

text \<open>The script's entry point, after the arguments are parsed.\<close>

definition ingest_main ::
  "files \<Rightarrow> 'f world \<Rightarrow> string \<Rightarrow> string \<Rightarrow> 'f request list
     \<Rightarrow> (abort + 'f json) \<times> 'f line list \<times> 'f request list" where
  "ingest_main fs w file_path doc_id tr =
     (if \<not> path_exists fs file_path
      then (Inl (SystemExit 1), [Text (cross_mark @ '' File not found: '' @ file_path)], tr)
      else ingest_document fs w file_path doc_id tr)"

section \<open>Transcription: \<^verbatim>\<open>transcribe_diarize.py\<close>\<close>

text \<open>
  The speech libraries: the result of the WhisperX pipeline (transcription, alignment
  and, with a token, speaker assignment) and of the basic Whisper model for an audio
  file, each with the exception it raises instead (\<^verbatim>\<open>ImportError\<close> when the library
  is not installed), and the exception, if any, of opening the output file for writing.
\<close>

record 'f speech =
  whisperx_run :: "string \<Rightarrow> string option \<Rightarrow> exn + 'f json"
  whisper_run :: "string \<Rightarrow> exn + 'f json"
  open_for_writing :: "string \<Rightarrow> exn option"

text \<open>
  In this script a float is the rational number that it denotes; the infinities and NaN
  are left out. \<^verbatim>\<open>round(x, 2)\<close> of a float takes the exact value of \<open>x\<close> to the
  nearest number with two decimals, a tie going to the neighbour with an even last
  digit. Python returns the float next to that number, and \<^verbatim>\<open>json.dump\<close> writes the
  shortest decimal that denotes this float, which is the number itself as long as it
  has at most fifteen significant digits.
\<close>

definition round_half_even :: "rat \<Rightarrow> int" where
  "round_half_even y =
     (let f = \<lfloor>y\<rfloor>; d = y - of_int f in
      if d < 1 / 2 then f else if 1 / 2 < d then f + 1 else if even f then f else f + 1)"

definition round2 :: "rat \<Rightarrow> rat" where
  "round2 x = of_int (round_half_even (x * 100)) / 100"

text \<open>
  \<^verbatim>\<open>round(v, 2)\<close>: an \<^verbatim>\<open>int\<close> is returned as it is, a \<^verbatim>\<open>bool\<close> as the
  \<^verbatim>\<open>int\<close> it stands for, a float is rounded; anything else raises
  \<^verbatim>\<open>TypeError\<close>.
\<close>

fun py_round2 :: "rat json \<Rightarrow> exn + rat json" where
  "py_round2 (JNum (PyInt i)) = Inr (JNum (PyInt i))"
| "py_round2 (JNum (PyFloat x)) = Inr (JNum (PyFloat (round2 x)))"
| "py_round2 (JBool b) = Inr (JNum (PyInt (if b then 1 else 0)))"
| "py_round2 _ = Inl TypeError"

text \<open>The dictionary appended for one segment, in the WhisperX branch and in the Whisper branch.\<close>

definition whisperx_segment :: "rat json \<Rightarrow> exn + rat json" where
  "whisperx_segment seg =
     ebind (ebind (dict_get seg ''start'' (JNum (PyInt 0))) py_round2) (\<lambda>start.
     ebind (ebind (dict_get seg ''end'' (JNum (PyInt 0))) py_round2) (\<lambda>end.
     ebind (dict_get seg ''speaker'' (JStr ''SPEAKER_00'')) (\<lambda>speaker.
     ebind (ebind (dict_get seg ''text'' (JStr '''')) strip_method) (\<lambda>text.
       Inr (JObj [(''start'', start), (''end'', end), (''speaker'', speaker),
                  (''text'', JStr text)])))))"

definition whisper_segment :: "rat json \<Rightarrow> exn + rat json" where
  "whisper_segment seg =
     ebind (ebind (dict_get seg ''start'' (JNum (PyInt 0))) py_round2) (\<lambda>start.
     ebind (ebind (dict_get seg ''end'' (JNum (PyInt 0))) py_round2) (\<lambda>end.
     ebind (ebind (dict_get seg ''text'' (JStr '''')) strip_method) (\<lambda>text.
       Inr (JObj [(''start'', start), (''end'', end), (''speaker'', JStr ''SPEAKER_00''),
                  (''text'', JStr text)]))))"

fun each_segment :: "('f json \<Rightarrow> exn + 'f json) \<Rightarrow> 'f json list \<Rightarrow> exn + 'f json list" where
  "each_segment f [] = Inr []"
| "each_segment f (seg # segs) =
     ebind (f seg) (\<lambda>t. ebind (each_segment f segs) (\<lambda>ts. Inr (t # ts)))"

text \<open>
  The loop over \<^verbatim>\<open>result.get("segments", [])\<close> and the \<^verbatim>\<open>json.dump\<close> of either
  branch: the transcript returned and the files written, as pairs of a path and a JSON
  value.
\<close>

definition save_transcript ::
  "'f speech \<Rightarrow> ('f json \<Rightarrow> exn + 'f json) \<Rightarrow> 'f json \<Rightarrow> string
     \<Rightarrow> (abort + 'f json list) \<times> (string \<times> 'f json) list" where
  "save_transcript sp f result output_path =
     (case ebind (ebind (dict_get result ''segments'' (JArr [])) py_iter) (each_segment f) of
        Inl e \<Rightarrow> (Inl (Uncaught e), [])
      | Inr transcript \<Rightarrow>
          (case open_for_writing sp output_path of
             Some e \<Rightarrow> (Inl (Uncaught e), [])
           | None \<Rightarrow> (Inr transcript, [(output_path, JObj [(''segments'', JArr transcript)])])))"

text \<open>
  \<^verbatim>\<open>transcribe_and_diarize\<close>. Only an \<^verbatim>\<open>ImportError\<close> of the first branch leads to
  the second one; an \<^verbatim>\<open>ImportError\<close> there ends the script with status 1. The
  progress messages on standard output are not modelled.
\<close>

definition transcribe_and_diarize ::
  "rat speech \<Rightarrow> string \<Rightarrow> string \<Rightarrow> string option
     \<Rightarrow> (abort + rat json list) \<times> (string \<times> rat json) list" where
  "transcribe_and_diarize sp audio_path output_path hf_token =
     (case whisperx_run sp audio_path hf_token of
        Inr result \<Rightarrow> save_transcript sp whisperx_segment result output_path
      | Inl e \<Rightarrow>
          (if e \<noteq> ImportError then (Inl (Uncaught e), [])
           else case whisper_run sp audio_path of
               Inr result \<Rightarrow> save_transcript sp whisper_segment result output_path
             | Inl e' \<Rightarrow>
                 (if e' = ImportError then (Inl (SystemExit 1), [])
                  else (Inl (Uncaught e'), []))))"

section \<open>Auxiliary notions for the proofs\<close>

text \<open>A word: a non-empty string without whitespace.\<close>

definition is_word :: "string \<Rightarrow> bool" where
  "is_word w = (w \<noteq> [] \<and> list_all (\<lambda>c. \<not> is_space c) w)"

text \<open>The count a frequency list holds for a word, 0 for a word that is not a key.\<close>

definition cnt :: "(string \<times> nat) list \<Rightarrow> string \<Rightarrow> nat" where
  "cnt kvs w = (case map_of kvs w of None \<Rightarrow> 0 | Some n \<Rightarrow> n)"

text \<open>
  Worlds for concrete runs: one without credentials where every request fails, one with
  an OpenAI key where every request fails, and one where the vector-search RPC answers
  404 and the table query answers 200 with one row.
\<close>

definition world_offline :: "'f world" where
  "world_offline =
     \<lparr>OPENAI_API_KEY = None, SUPABASE_URL = None, SUPABASE_KEY = None,
      http = (\<lambda>tr rq. Inl RequestException)\<rparr>"

definition world_no_network :: "'f world" where
  "world_no_network =
     \<lparr>OPENAI_API_KEY = Some ''sk'', SUPABASE_URL = Some ''https://db'', SUPABASE_KEY = Some ''key'',
      http = (\<lambda>tr rq. Inl RequestException)\<rparr>"


text \<open>
  The text of a segment that the loop body can read: the value under \<open>text\<close> when it is
  a string, the empty string when the key is absent; \<open>None\<close> for anything else.
\<close>

fun segment_text :: "'f json \<Rightarrow> string option" where
  "segment_text (JObj kvs) =
     (case map_of kvs ''text'' of
        None \<Rightarrow> Some []
      | Some (JStr t) \<Rightarrow> Some t
      | Some _ \<Rightarrow> None)"
| "segment_text _ = None"

definition readable :: "'f json \<Rightarrow> bool" where
  "readable seg = (segment_text seg \<noteq> None)"

definition spoken :: "'f json \<Rightarrow> bool" where
  "spoken seg = (case segment_text seg of None \<Rightarrow> False | Some t \<Rightarrow> str_strip t \<noteq> [])"

text \<open>
  Built-ins for concrete runs, with \<open>int\<close> standing for the floats, and a world in which
  the chat completion API answers every request with the content \<open>ok\<close>.
\<close>

definition py_stub :: "int builtins" where
  "py_stub = \<lparr>float_0_3 = 0, format_1f = (\<lambda>n. ''0.0''), str_of = (\<lambda>v. ''?'')\<rparr>"


text \<open>
  A file system with one kind of file, and a world in which every request is answered
  with status 200 and one embedding.
\<close>

definition files_notes :: files where
  "files_notes =
     \<lparr>path_exists = (\<lambda>p. True), read_text = (\<lambda>p. Inr ''alpha beta gamma''),
      pdfplumber = None, exn_text = (\<lambda>e. ''error'')\<rparr>"

definition world_all_ok :: "'f world" where
  "world_all_ok =
     \<lparr>OPENAI_API_KEY = Some ''sk'', SUPABASE_URL = Some ''https://db'', SUPABASE_KEY = Some ''key'',
      http = (\<lambda>tr rq. Inr \<lparr>status_code = 200,
        json_body = Some (JObj [(''data'', JArr [JObj [(''embedding'', JArr [])]])])\<rparr>)\<rparr>"

text \<open>
  A timestamp rounded to two decimals: an \<^verbatim>\<open>int\<close> (or a \<^verbatim>\<open>bool\<close>, as the
  \<^verbatim>\<open>int\<close> it stands for) is left as it is, and a float is taken to a float that is
  a whole number of hundredths and at most half a hundredth away.
\<close>

fun rounded2 :: "rat json \<Rightarrow> rat json \<Rightarrow> bool" where
  "rounded2 (JNum (PyInt i)) s = (s = JNum (PyInt i))"
| "rounded2 (JBool b) s = (s = JNum (PyInt (if b then 1 else 0)))"
| "rounded2 (JNum (PyFloat x)) (JNum (PyFloat r)) =
     (of_int \<lfloor>r * 100\<rfloor> = r * 100 \<and> \<bar>r - x\<bar> \<le> 1 / 200)"
| "rounded2 _ _ = False"

text \<open>
  A speech library for a concrete run: WhisperX delivers two segments, the first with a
  speaker label, padded text and float timestamps, the second with a text only. A second
  one where WhisperX is not installed and the basic Whisper model delivers one segment.
\<close>

definition speech_two_segments :: "rat speech" where
  "speech_two_segments =
     \<lparr>whisperx_run = (\<lambda>audio_path hf_token. Inr (JObj [(''segments'', JArr [
          JObj [(''start'', JNum (PyFloat (5 / 8))), (''end'', JNum (PyFloat (1234567 / 1000))),
                (''speaker'', JStr ''SPEAKER_01''), (''text'', JStr '' Hello there. '')],
          JObj [(''text'', JStr ''Bye'')]])])),
      whisper_run = (\<lambda>audio_path. Inl ImportError),
      open_for_writing = (\<lambda>path. None)\<rparr>"

definition speech_whisper_only :: "rat speech" where
  "speech_whisper_only =
     \<lparr>whisperx_run = (\<lambda>audio_path hf_token. Inl ImportError),
      whisper_run = (\<lambda>audio_path. Inr (JObj [(''segments'', JArr [
          JObj [(''start'', JNum (PyInt 0)), (''end'', JNum (PyFloat (7 / 2))),
                (''speaker'', JStr ''SPEAKER_07''), (''text'', JStr ''Welcome back '')]])])),
      open_for_writing = (\<lambda>path. None)\<rparr>"

text \<open>
  What a segment holds under a key, \<open>null\<close> when it holds nothing there, and the text
  of a segment, the empty string when it has none.
\<close>

definition seg_field :: "'f json \<Rightarrow> string \<Rightarrow> 'f json" where
  "seg_field seg k =
     (case seg of
        JObj kvs \<Rightarrow> (case map_of kvs k of None \<Rightarrow> JNull | Some v \<Rightarrow> v)
      | _ \<Rightarrow> JNull)"

definition spoken_text :: "'f json \<Rightarrow> string" where
  "spoken_text seg = (case segment_text seg of None \<Rightarrow> [] | Some t \<Rightarrow> t)"

text \<open>
  A world, with the float timestamps and vector entries as rationals, in which the
  embeddings API answers every request with the same vector, and the vector-search RPC
  answers the first search with one row and is unreachable afterwards.
\<close>

definition world_search_once :: "rat world" where
  "world_search_once =
     \<lparr>OPENAI_API_KEY = Some ''sk'', SUPABASE_URL = Some ''https://db'', SUPABASE_KEY = Some ''key'',
      http = (\<lambda>tr rq.
        if rq_url rq = ''https://api.openai.com/v1/embeddings''
        then Inr \<lparr>status_code = 200,
                  json_body = Some (JObj [(''data'', JArr [JObj [(''embedding'',
                    JArr [JNum (PyFloat (1 / 2)), JNum (PyFloat (- (1 / 4)))])]])])\<rparr>
        else if rq_url rq = ''https://db/rest/v1/rpc/match_doc_chunks'' \<and> length tr < 2
        then Inr \<lparr>status_code = 200,
                  json_body = Some (JArr [JObj [(''content'', JStr ''budget plan''),
                                                (''similarity'', JNum (PyFloat (3 / 4)))]])\<rparr>
        else Inl RequestException)\<rparr>"

text \<open>A world without an OpenAI key, with the Supabase credentials set.\<close>

definition world_no_openai_key :: "rat world" where
  "world_no_openai_key =
     \<lparr>OPENAI_API_KEY = None, SUPABASE_URL = Some ''https://db'', SUPABASE_KEY = Some ''key'',
      http = (\<lambda>tr rq. Inl RequestException)\<rparr>"

text \<open>
  A world in which the embeddings API answers every request with a vector and every
  other request meets no server.
\<close>

definition world_search_down :: "rat world" where
  "world_search_down =
     \<lparr>OPENAI_API_KEY = Some ''sk'', SUPABASE_URL = Some ''https://db'', SUPABASE_KEY = Some ''key'',
      http = (\<lambda>tr rq.
        if rq_url rq = ''https://api.openai.com/v1/embeddings''
        then Inr \<lparr>status_code = 200,
                  json_body = Some (JObj [(''data'', JArr [JObj [(''embedding'',
                    JArr [JNum (PyFloat (1 / 2))])]])])\<rparr>
        else Inl RequestException)\<rparr>"




text \<open>
  The words of a text: its maximal runs of word characters (letters, digits and the
  underscore), in order.
\<close>

function word_runs :: "string \<Rightarrow> string list" where
  "word_runs s =
     (case dropWhile (\<lambda>c. \<not> is_wordchar c) s of
        [] \<Rightarrow> []
      | c # cs \<Rightarrow> takeWhile is_wordchar (c # cs) # word_runs (dropWhile is_wordchar (c # cs)))"
  by pat_completeness auto
termination
proof (relation "measure length")
  show "wf (measure length)" by simp
next
  fix s :: string and c :: char and cs :: string
  assume d: "dropWhile (\<lambda>c. \<not> is_wordchar c) s = c # cs"
  then have "is_wordchar c"
    using hd_dropWhile[of "\<lambda>c. \<not> is_wordchar c" s] by simp
  then have "length (dropWhile is_wordchar (c # cs)) \<le> length cs"
    by (simp add: length_dropWhile_le)
  moreover have "length (c # cs) \<le> length s"
    using length_dropWhile_le[of "\<lambda>c. \<not> is_wordchar c" s] d by simp
  ultimately show "(dropWhile is_wordchar (c # cs), s) \<in> measure length"
    by simp
qed

declare word_runs.simps [simp del]

chapter \<open>Properties\<close>

section \<open>Slices, splitting and joining\<close>

lemma py_slice_nonneg:
  "py_slice xs (int s) (int s + int c) = take c (drop s xs)"
proof -
  have "nat (min (int s + int c) (int (length xs)) - min (int s) (int (length xs))) =
        min (s + c) (length xs) - min s (length xs)"
    by (simp add: min_def) linarith
  moreover have "take (min (s + c) (length xs) - min s (length xs)) (drop (min s (length xs)) xs)
      = take c (drop s xs)"
    by (cases "s \<le> length xs") (auto simp: min_def)
  moreover have "nat (min (int s) (int (length xs))) = min s (length xs)"
    by (simp add: min_def)
  ultimately show ?thesis
    by (simp add: py_slice_def Let_def)
qed

lemma chunk_loop_closed:
  assumes d: "0 < d"
  shows "chunk_loop ws (int c) (int c - int d) acc (int s) =
         Some (acc @ map (\<lambda>k. str_join '' '' (take c (drop (s + k * d) ws)))
                       [0..<(length ws - s + d - 1) div d])"
proof (induction "length ws - s" arbitrary: s acc rule: less_induct)
  case less
  show ?case
  proof (cases "s < length ws")
    case False
    then have "(length ws - s + d - 1) div d = 0" using d by simp
    with False show ?thesis by (subst chunk_loop.simps) simp
  next
    case True
    let ?m = "(length ws - s + d - 1) div d"
    let ?m' = "(length ws - (s + d) + d - 1) div d"
    have m: "?m = Suc ?m'"
    proof (cases "s + d \<le> length ws")
      case True
      then have "length ws - s + d - 1 = (length ws - (s + d) + d - 1) + d" using d by simp
      then show ?thesis using d by (simp only: div_add_self2)
    next
      case False
      with True d have a: "length ws - s + d - 1 < 2 * d" "d \<le> length ws - s + d - 1" by auto
      then have "?m = 1"
        by (intro div_nat_eqI) simp_all
      moreover from False have "?m' = 0" using d by simp
      ultimately show ?thesis by simp
    qed
    have step: "int s + int c - (int c - int d) = int (s + d)" by simp
    have IH: "chunk_loop ws (int c) (int c - int d) acc' (int (s + d)) =
         Some (acc' @ map (\<lambda>k. str_join '' '' (take c (drop (s + d + k * d) ws))) [0..<?m'])" for acc'
      using less[of "s + d" acc'] True d by simp
    have "chunk_loop ws (int c) (int c - int d) acc (int s) =
          chunk_loop ws (int c) (int c - int d)
             (acc @ [str_join '' '' (take c (drop s ws))]) (int (s + d))"
      using True by (subst chunk_loop.simps) (simp only: py_slice_nonneg step, simp)
    also have "\<dots> = Some (acc @ map (\<lambda>k. str_join '' '' (take c (drop (s + k * d) ws))) [0..<?m])"
      unfolding IH m by (simp only: map_upt_Suc) (simp add: ac_simps)
    finally show ?thesis .
  qed
qed

lemma chunk_loop_terminates:
  assumes "overlap < chunk_size"
  shows "\<exists>r. chunk_loop ws chunk_size overlap acc start = Some r"
proof (induction "nat (int (length ws) - start)" arbitrary: start acc rule: less_induct)
  case less
  show ?case
  proof (cases "start < int (length ws)")
    case False
    then show ?thesis by (subst chunk_loop.simps) simp
  next
    case True
    have "nat (int (length ws) - (start + chunk_size - overlap)) < nat (int (length ws) - start)"
      using True assms by linarith
    from less[OF this] show ?thesis using True by (subst chunk_loop.simps) simp
  qed
qed

lemma chunk_loop_diverges_aux:
  assumes "chunk_loop ws cs ov acc st = Some r"
  shows "\<not> (cs \<le> ov \<and> st < int (length ws))"
  using assms
proof (rule chunk_loop.raw_induct
        [where P = "\<lambda>ws cs ov acc st r. \<not> (cs \<le> ov \<and> st < int (length ws))", rotated])
  fix f :: "string list \<Rightarrow> int \<Rightarrow> int \<Rightarrow> string list \<Rightarrow> int \<Rightarrow> string list option"
  fix w c v a s y
  assume IH: "\<And>w c v a s y. f w c v a s = Some y \<Longrightarrow> \<not> (c \<le> v \<and> s < int (length w))"
  assume eq: "(if s < int (length w)
               then f w c v (a @ [str_join '' '' (py_slice w s (s + c))]) (s + c - v)
               else Some a) = Some y"
  show "\<not> (c \<le> v \<and> s < int (length w))"
  proof
    assume bad: "c \<le> v \<and> s < int (length w)"
    with eq have "f w c v (a @ [str_join '' '' (py_slice w s (s + c))]) (s + c - v) = Some y"
      by simp
    from IH[OF this] bad show False by linarith
  qed
qed

lemma chunk_loop_diverges:
  "chunk_size \<le> overlap \<Longrightarrow> start < int (length ws) \<Longrightarrow>
   chunk_loop ws chunk_size overlap acc start = None"
  using chunk_loop_diverges_aux[of ws chunk_size overlap acc start] by (cases "chunk_loop ws chunk_size overlap acc start") auto

lemma is_space_blank: "is_space CHR '' ''"
  by (simp add: is_space_def)

lemma words_from_word:
  "\<forall>c\<in>set w. \<not> is_space c \<Longrightarrow> words_from cur (w @ rest) = words_from (cur @ w) rest"
  by (induction w arbitrary: cur) auto

lemma words_from_join:
  "list_all is_word ws \<Longrightarrow> words_from [] (str_join '' '' ws) = ws"
proof (induction "'' ''" ws rule: str_join.induct)
  case 1
  then show ?case by simp
next
  case (2 w)
  then show ?case
    using words_from_word[of w "[]" "[]"] by (simp add: is_word_def list_all_iff)
next
  case (3 w v ws)
  have "words_from [] (w @ '' '' @ str_join '' '' (v # ws)) = words_from w ('' '' @ str_join '' '' (v # ws))"
    using 3(2) words_from_word[of w "[]"] by (simp add: is_word_def list_all_iff)
  also have "\<dots> = w # words_from [] (str_join '' '' (v # ws))"
    using 3(2) is_space_blank by (simp add: is_word_def)
  finally show ?case using 3 by simp
qed

lemma split_ws_join: "list_all is_word ws \<Longrightarrow> split_ws (str_join '' '' ws) = ws"
  by (simp add: split_ws_def words_from_join)

lemma words_from_are_words:
  "list_all (\<lambda>c. \<not> is_space c) cur \<Longrightarrow> list_all is_word (words_from cur s)"
  by (induction s arbitrary: cur) (auto simp: is_word_def)

lemma split_ws_words: "list_all is_word (split_ws text)"
  by (simp add: split_ws_def words_from_are_words)

lemma list_all_take_drop: "list_all P xs \<Longrightarrow> list_all P (take n (drop m xs))"
  by (auto simp: list_all_iff dest: in_set_takeD in_set_dropD)

lemma split_ws_chunk:
  "split_ws (str_join '' '' (take c (drop s (split_ws text)))) = take c (drop s (split_ws text))"
  by (intro split_ws_join list_all_take_drop split_ws_words)

lemma chunk_text_closed:
  assumes "0 < d"
  shows "chunk_text text (int c) (int c - int d) =
         Some (map (\<lambda>k. str_join '' '' (take c (drop (k * d) (split_ws text))))
                   [0..<(length (split_ws text) + d - 1) div d])"
  using chunk_loop_closed[OF assms, of "split_ws text" c "[]" 0]
  by (simp add: chunk_text_def)

lemma chunk_text_default_closed:
  "chunk_text text 500 50 =
         Some (map (\<lambda>k. str_join '' '' (take 500 (drop (k * 450) (split_ws text))))
                   [0..<(length (split_ws text) + 449) div 450])"
  using chunk_text_closed[of "450" "text" "500"] by (simp add: add.commute)


lemma split_ws_replicate: "split_ws (concat (replicate n ''w '')) = replicate n ''w''"
  unfolding split_ws_def by (induction n) (simp_all add: is_space_def)

lemma is_word_replicate: "list_all is_word (replicate k ''w'')"
  by (simp add: list_all_iff is_word_def is_space_def)

section \<open>Chunking with the default sizes\<close>

lemma chunk_lengths_default:
  fixes ws :: "'a list"
  defines "W \<equiv> \<lambda>i. take 500 (drop (450 * i) ws)"
  shows "drop 450 (W i) = take 50 (W (Suc i))"
    and "Suc i < (length ws + 449) div 450 \<Longrightarrow> length (W i) = 450 + min 50 (length (W (Suc i)))"
    and "Suc (Suc i) < (length ws + 449) div 450 \<Longrightarrow> length (W i) = 500"
    and "j < length ws \<Longrightarrow> j div 450 < (length ws + 449) div 450 \<and> W (j div 450) ! (j mod 450) = ws ! j"
proof -
  show "drop 450 (W i) = take 50 (W (Suc i))"
    by (simp add: W_def drop_take add.commute)
  show "length (W i) = 450 + min 50 (length (W (Suc i)))" if "Suc i < (length ws + 449) div 450"
  proof -
    from that have "Suc (Suc i) \<le> (length ws + 449) div 450" by simp
    then have "Suc (Suc i) * 450 \<le> length ws + 449" by (simp only: less_eq_div_iff_mult_less_eq)
    then show ?thesis by (auto simp: W_def min_def)
  qed
  show "length (W i) = 500" if "Suc (Suc i) < (length ws + 449) div 450"
  proof -
    from that have "Suc (Suc (Suc i)) \<le> (length ws + 449) div 450" by simp
    then have "Suc (Suc (Suc i)) * 450 \<le> length ws + 449" by (simp only: less_eq_div_iff_mult_less_eq)
    then show ?thesis by (simp add: W_def min_def)
  qed
  show "j div 450 < (length ws + 449) div 450 \<and> W (j div 450) ! (j mod 450) = ws ! j" if "j < length ws"
  proof
    have "j + 450 \<le> length ws + 449" using that by simp
    then have "(j + 450) div 450 \<le> (length ws + 449) div 450" by (rule div_le_mono)
    then show "j div 450 < (length ws + 449) div 450" by simp
    have "j mod 450 < 500" by (rule less_trans[OF mod_less_divisor]) simp_all
    moreover have "450 * (j div 450) + j mod 450 = j" by simp
    ultimately show "W (j div 450) ! (j mod 450) = ws ! j"
      using that by (simp add: W_def)
  qed
qed

text \<open>
  Claim C1, as the code has it. With the defaults, \<^verbatim>\<open>chunk_text\<close> returns, for a text
  of \<open>n\<close> words, \<open>(n + 449) div 450\<close> chunks; chunk \<open>i\<close> holds the words
  \<open>450 * i\<close> up to \<open>450 * i + 500\<close> (clamped to \<open>n\<close>) joined by single blanks.
  The words of a chunk after its first 450 are the first 50 words of the next chunk, or
  all of the next chunk when that has fewer than 50 words, so a chunk that has a
  successor has 450 words plus the shared ones. Every chunk but the last two has exactly
  500 words, and word \<open>j\<close> of the text is word \<open>j mod 450\<close> of chunk \<open>j div 450\<close>.
\<close>

theorem chunk_text_default_chunks:
  "\<exists>chunks. chunk_text s 500 50 = Some chunks
     \<and> chunks = map (\<lambda>i. str_join '' '' (take 500 (drop (450 * i) (split_ws s))))
                     [0..<(length (split_ws s) + 449) div 450]
     \<and> length chunks = (length (split_ws s) + 449) div 450
     \<and> (\<forall>i < length chunks. split_ws (chunks ! i) = take 500 (drop (450 * i) (split_ws s)))
     \<and> (\<forall>i. Suc i < length chunks \<longrightarrow>
            drop 450 (split_ws (chunks ! i)) = take 50 (split_ws (chunks ! Suc i))
          \<and> length (split_ws (chunks ! i)) = 450 + min 50 (length (split_ws (chunks ! Suc i))))
     \<and> (\<forall>i. Suc (Suc i) < length chunks \<longrightarrow> length (split_ws (chunks ! i)) = 500)
     \<and> (\<forall>j < length (split_ws s).
            j div 450 < length chunks
          \<and> split_ws (chunks ! (j div 450)) ! (j mod 450) = split_ws s ! j)"
proof -
  define ws where "ws = split_ws s"
  define m where "m = (length ws + 449) div 450"
  define chunks where
    "chunks = map (\<lambda>k. str_join '' '' (take 500 (drop (k * 450) ws))) [0..<m]"
  have run: "chunk_text s 500 50 = Some chunks"
    unfolding chunks_def m_def ws_def by (rule chunk_text_default_closed)
  have len: "length chunks = m"
    by (simp add: chunks_def)
  have content: "split_ws (chunks ! i) = take 500 (drop (450 * i) ws)" if "i < m" for i
    using that unfolding chunks_def ws_def by (simp add: split_ws_chunk mult.commute)
  have share: "drop 450 (split_ws (chunks ! i)) = take 50 (split_ws (chunks ! Suc i))
      \<and> length (split_ws (chunks ! i)) = 450 + min 50 (length (split_ws (chunks ! Suc i)))"
    if "Suc i < m" for i
  proof -
    from that have "i < m" by simp
    with that show ?thesis
      using chunk_lengths_default(1,2)[of i ws] by (simp only: content m_def)
  qed
  have full: "length (split_ws (chunks ! i)) = 500" if "Suc (Suc i) < m" for i
  proof -
    from that have "i < m" by simp
    with that show ?thesis
      using chunk_lengths_default(3)[of i ws] by (simp only: content m_def)
  qed
  have cover: "j div 450 < m \<and> split_ws (chunks ! (j div 450)) ! (j mod 450) = ws ! j"
    if "j < length ws" for j
  proof -
    from chunk_lengths_default(4)[OF that]
    have *: "j div 450 < m" "take 500 (drop (450 * (j div 450)) ws) ! (j mod 450) = ws ! j"
      by (simp_all add: m_def)
    then show ?thesis by (simp only: content)
  qed
  show ?thesis
    unfolding ws_def[symmetric] m_def[symmetric]
  proof (intro exI[of _ chunks] conjI allI impI)
    show "chunk_text s 500 50 = Some chunks" by (rule run)
    show "chunks = map (\<lambda>i. str_join '' '' (take 500 (drop (450 * i) ws))) [0..<m]"
      by (simp add: chunks_def mult.commute)
    show "length chunks = m" by (rule len)
    show "split_ws (chunks ! i) = take 500 (drop (450 * i) ws)" if "i < length chunks" for i
      using that content by (simp only: len)
    show "drop 450 (split_ws (chunks ! i)) = take 50 (split_ws (chunks ! Suc i))"
      if "Suc i < length chunks" for i
      using that share by (simp only: len)
    show "length (split_ws (chunks ! i)) = 450 + min 50 (length (split_ws (chunks ! Suc i)))"
      if "Suc i < length chunks" for i
      using that share by (simp only: len)
    show "length (split_ws (chunks ! i)) = 500" if "Suc (Suc i) < length chunks" for i
      using that full by (simp only: len)
    show "j div 450 < length chunks" if "j < length ws" for j
      using that cover by (simp only: len)
    show "split_ws (chunks ! (j div 450)) ! (j mod 450) = ws ! j" if "j < length ws" for j
      using that cover by simp
  qed
qed

text \<open>
  The statement at a text of 1000 words: three chunks, the first one full, sharing 50
  words with the second, and the last word of the text in the third, which is the last
  100 words joined by blanks. And at a text of three words with blanks and a tab
  between them: one chunk, the words joined by single blanks.
\<close>

theorem chunk_text_default_chunks_witness:
  "(\<exists>chunks. chunk_text (concat (replicate 1000 ''w '')) 500 50 = Some chunks
     \<and> length chunks = 3
     \<and> length (split_ws (chunks ! 0)) = 500
     \<and> drop 450 (split_ws (chunks ! 0)) = take 50 (split_ws (chunks ! 1))
     \<and> split_ws (chunks ! 2) ! 99 = ''w''
     \<and> chunks ! 2 = str_join '' '' (replicate 100 ''w''))
   \<and> chunk_text (''  one   two'' @ [CHR 0x09] @ ''three '') 500 50 = Some [''one two three'']"
proof -
  have ws: "split_ws (concat (replicate 1000 ''w '')) = replicate 1000 ''w''"
    by (rule split_ws_replicate)
  from chunk_text_default_chunks[of "concat (replicate 1000 ''w '')"]
  obtain chunks where c:
    "chunk_text (concat (replicate 1000 ''w '')) 500 50 = Some chunks"
    "length chunks = 3"
    "\<forall>i. Suc i < length chunks \<longrightarrow>
            drop 450 (split_ws (chunks ! i)) = take 50 (split_ws (chunks ! Suc i))
          \<and> length (split_ws (chunks ! i)) = 450 + min 50 (length (split_ws (chunks ! Suc i)))"
    "\<forall>i. Suc (Suc i) < length chunks \<longrightarrow> length (split_ws (chunks ! i)) = 500"
    "\<forall>j < 1000. j div 450 < length chunks
          \<and> split_ws (chunks ! (j div 450)) ! (j mod 450) = replicate 1000 ''w'' ! j"
    "chunks = map (\<lambda>i. str_join '' '' (take 500 (drop (450 * i) (replicate 1000 ''w'')))) [0..<3]"
    unfolding ws by auto
  from c(4) c(2) have "length (split_ws (chunks ! 0)) = 500" by simp
  moreover from c(3) c(2) have "drop 450 (split_ws (chunks ! 0)) = take 50 (split_ws (chunks ! 1))"
    by simp
  moreover from c(5) have "split_ws (chunks ! (999 div 450)) ! (999 mod 450) = replicate 1000 ''w'' ! 999"
    by (elim allE[of _ "999"]) simp
  then have "split_ws (chunks ! 2) ! 99 = ''w''" by simp
  moreover have "chunks ! 2 = str_join '' '' (replicate 100 ''w'')"
    unfolding c(6) by (simp add: min_def)
  ultimately have big: "\<exists>chunks. chunk_text (concat (replicate 1000 ''w '')) 500 50 = Some chunks
     \<and> length chunks = 3
     \<and> length (split_ws (chunks ! 0)) = 500
     \<and> drop 450 (split_ws (chunks ! 0)) = take 50 (split_ws (chunks ! 1))
     \<and> split_ws (chunks ! 2) ! 99 = ''w''
     \<and> chunks ! 2 = str_join '' '' (replicate 100 ''w'')"
    using c(1,2) by blast
  have sw: "split_ws (''  one   two'' @ [CHR 0x09] @ ''three '') = [''one'', ''two'', ''three'']"
    by (simp add: split_ws_def is_space_def)
  from chunk_text_default_chunks[of "''  one   two'' @ [CHR 0x09] @ ''three ''"]
  have "chunk_text (''  one   two'' @ [CHR 0x09] @ ''three '') 500 50 = Some [''one two three'']"
    unfolding sw by (auto simp: upt_rec)
  with big show ?thesis by blast
qed

text \<open>
  Claim C1 as worded fails on a text of 460 words: the loop runs twice, the first chunk
  (not the last one) has 460 words instead of 500, and the second has the 10 words from
  position 450 on, which are all that the two chunks share.
\<close>

theorem chunk_text_default_short_first_chunk:
  "map_option (map (length \<circ> split_ws)) (chunk_text (concat (replicate 460 ''w '')) 500 50)
     = Some [460, 10]"
proof -
  have n: "[0..<2] = [0, Suc 0]"
    by (simp add: upt_rec)
  show ?thesis
    unfolding chunk_text_default_closed split_ws_replicate
    by (simp add: n split_ws_join is_word_replicate min_def)
qed

section \<open>Termination of the chunking loop\<close>

text \<open>
  Claim C8, as the code has it. With \<open>overlap < chunk_size\<close> the loop returns for every text.
  With \<open>chunk_size \<le> overlap\<close> it never returns exactly when the text has at least one
  word; on a text without words the loop body is never entered.
\<close>

theorem chunk_text_terminates_iff:
  "(overlap < chunk_size \<longrightarrow> (\<exists>chunks. chunk_text s chunk_size overlap = Some chunks))
   \<and> (chunk_size \<le> overlap \<longrightarrow>
        (chunk_text s chunk_size overlap = None \<longleftrightarrow> split_ws s \<noteq> []))"
proof (intro conjI impI)
  assume "overlap < chunk_size"
  then show "\<exists>chunks. chunk_text s chunk_size overlap = Some chunks"
    unfolding chunk_text_def by (rule chunk_loop_terminates)
next
  assume le: "chunk_size \<le> overlap"
  show "chunk_text s chunk_size overlap = None \<longleftrightarrow> split_ws s \<noteq> []"
  proof (cases "split_ws s = []")
    case True
    then show ?thesis
      unfolding chunk_text_def by (subst chunk_loop.simps) simp
  next
    case False
    then have "0 < int (length (split_ws s))" by simp
    with le have "chunk_text s chunk_size overlap = None"
      unfolding chunk_text_def by (rule chunk_loop_diverges)
    with False show ?thesis by simp
  qed
qed

text \<open>
  Both halves at concrete inputs: a run that returns, one that does not, and a text of
  blanks only.
\<close>

theorem chunk_text_terminates_iff_witness:
  "chunk_text ''a b c'' 2 1 \<noteq> None \<and> chunk_text ''a b c'' 1 1 = None \<and> chunk_text '' '' 1 1 \<noteq> None"
  using chunk_text_terminates_iff[of 1 2 "''a b c''"] chunk_text_terminates_iff[of 1 1 "''a b c''"]
    chunk_text_terminates_iff[of 1 1 "'' ''"]
  by (simp add: split_ws_def is_space_def)

text \<open>
  Claim C8 as worded fails for \<open>chunk_size = overlap = 0\<close> on the empty text: it has at
  least \<open>chunk_size\<close> words, and the call returns the empty list.
\<close>

theorem chunk_text_empty_text_returns:
  "(0::int) \<le> 0 \<and> (0::int) \<le> int (length (split_ws '''')) \<and> chunk_text '''' 0 0 = Some []"
  unfolding chunk_text_def by (subst chunk_loop.simps) (simp add: split_ws_def)

section \<open>Keyword extraction\<close>

lemma lower_char_not_upper: "\<not> is_upper (lower_char c)"
  by (auto simp: lower_char_def is_upper_def Let_def)

lemma find_words_shape:
  "w \<in> set (find_words prev s) \<Longrightarrow> 3 \<le> length w \<and> list_all is_alpha w \<and> set w \<subseteq> set s"
proof (induction prev s rule: find_words.induct)
  case (1 prev)
  then show ?case by simp
next
  case (2 prev c cs)
  let ?run = "takeWhile is_alpha (c # cs)"
  let ?rest = "dropWhile is_alpha (c # cs)"
  let ?hit = "prev \<noteq> is_wordchar c \<and> 3 \<le> length ?run
         \<and> (case ?rest of [] \<Rightarrow> True | d # _ \<Rightarrow> \<not> is_wordchar d)"
  show ?case
  proof (cases ?hit)
    case True
    have "find_words prev (c # cs) = ?run # find_words True ?rest"
      by (subst find_words.simps(2)) (rule if_P[OF True])
    with 2(3) have "w = ?run \<or> w \<in> set (find_words True ?rest)" by simp
    then show ?thesis
    proof
      assume w: "w = ?run"
      have "list_all is_alpha ?run" by (metis list_all_iff set_takeWhileD)
      moreover have "set ?run \<subseteq> set (c # cs)" by (meson set_takeWhileD subsetI)
      ultimately show ?thesis using True w by simp
    next
      assume "w \<in> set (find_words True ?rest)"
      from 2(1)[OF True this] have "3 \<le> length w \<and> list_all is_alpha w \<and> set w \<subseteq> set ?rest" .
      moreover have "set ?rest \<subseteq> set (c # cs)" by (meson set_dropWhileD subsetI)
      ultimately show ?thesis by blast
    qed
  next
    case False
    have "find_words prev (c # cs) = find_words (is_wordchar c) cs"
      by (subst find_words.simps(2)) (rule if_not_P[OF False])
    with 2(3) have "w \<in> set (find_words (is_wordchar c) cs)" by simp
    from 2(2)[OF False this] show ?thesis by auto
  qed
qed

lemma tokens_shape:
  assumes "w \<in> set (tokens s)"
  shows "3 \<le> length w \<and> list_all is_lower w"
proof -
  from find_words_shape[OF assms[unfolded tokens_def]]
  have a: "3 \<le> length w" "list_all is_alpha w" "set w \<subseteq> set (str_lower s)" by simp_all
  have "is_lower c" if "c \<in> set w" for c
  proof -
    from that a(3) have "\<not> is_upper c" by (auto simp: str_lower_def lower_char_not_upper)
    moreover from that a(2) have "is_alpha c" by (simp add: list_all_iff)
    ultimately show ?thesis by (simp add: is_alpha_def)
  qed
  with a(1) show ?thesis by (simp add: list_all_iff)
qed

lemma freq_incr_keys: "set (map fst (freq_incr kvs w)) = insert w (set (map fst kvs))"
  by (induction kvs w rule: freq_incr.induct) auto

lemma freq_incr_distinct: "distinct (map fst kvs) \<Longrightarrow> distinct (map fst (freq_incr kvs w))"
proof (induction kvs w rule: freq_incr.induct)
  case (1 w)
  then show ?case by simp
next
  case (2 k n kvs w)
  then show ?case using freq_incr_keys[of kvs w] by auto
qed

lemma freq_incr_cnt: "cnt (freq_incr kvs w) x = cnt kvs x + (if x = w then 1 else 0)"
  by (induction kvs w rule: freq_incr.induct) (auto simp: cnt_def)

lemma foldl_freq_incr:
  "set (map fst (foldl freq_incr kvs ws)) = set (map fst kvs) \<union> set ws
   \<and> (distinct (map fst kvs) \<longrightarrow> distinct (map fst (foldl freq_incr kvs ws)))
   \<and> cnt (foldl freq_incr kvs ws) x = cnt kvs x + count_list ws x"
proof (induction ws arbitrary: kvs)
  case Nil
  then show ?case by simp
next
  case (Cons w ws)
  show ?case
    using Cons[of "freq_incr kvs w"] freq_incr_keys[of kvs w] freq_incr_distinct[of kvs w]
      freq_incr_cnt[of kvs w x]
    by auto
qed

lemma count_freq_keys: "set (map fst (count_freq ws)) = set ws"
  using foldl_freq_incr[of "[]" ws] by (simp add: count_freq_def)

lemma count_freq_distinct: "distinct (map fst (count_freq ws))"
  using foldl_freq_incr[of "[]" ws] by (simp add: count_freq_def)

lemma count_freq_cnt: "cnt (count_freq ws) x = count_list ws x"
  using foldl_freq_incr[of "[]" ws x] by (simp add: count_freq_def cnt_def)

lemma count_freq_snd:
  assumes "p \<in> set (count_freq ws)"
  shows "snd p = count_list ws (fst p)"
proof -
  obtain w n where p: "p = (w, n)" by (cases p)
  with assms count_freq_distinct[of ws] have "map_of (count_freq ws) w = Some n"
    by simp
  then have "cnt (count_freq ws) w = n" by (simp add: cnt_def)
  with p show ?thesis by (simp add: count_freq_cnt)
qed

lemma sorted_desc_set: "set (sorted_desc items) = set items"
  by (simp add: sorted_desc_def)

lemma sorted_desc_distinct_keys:
  "distinct (map fst items) \<Longrightarrow> distinct (map fst (sorted_desc items))"
  by (simp add: sorted_desc_def distinct_map)

lemma sorted_desc_sorted:
  "sorted_wrt (\<lambda>a b. snd b \<le> snd a) (sorted_desc items)"
proof -
  have "sorted (map (\<lambda>x. - int (snd x)) (sorted_desc items))"
    unfolding sorted_desc_def by (rule sorted_sort_key)
  then show ?thesis by (simp add: sorted_map)
qed

lemma py_slice_prefix: "0 \<le> k \<Longrightarrow> py_slice xs 0 k = take (nat k) xs"
  by (simp add: py_slice_def Let_def min_def)

lemma count_list_filter:
  "count_list (filter P xs) x = (if P x then count_list xs x else 0)"
  by (induction xs) auto

lemma ranked_sorted:
  fixes toks :: "string list"
  defines "kept \<equiv> filter (\<lambda>w. w \<notin> set stopwords) toks"
  defines "ranked \<equiv> map fst (sorted_desc (count_freq kept))"
  shows "distinct ranked"
    and "set ranked = set toks - set stopwords"
    and "sorted_wrt (\<lambda>a b. count_list toks b \<le> count_list toks a) ranked"
proof -
  show "distinct ranked"
    unfolding ranked_def by (intro sorted_desc_distinct_keys count_freq_distinct)
  have "set ranked = set kept"
    unfolding ranked_def using count_freq_keys[of kept] by (simp add: sorted_desc_set)
  then show keys: "set ranked = set toks - set stopwords"
    by (auto simp: kept_def)
  have "sorted_wrt (\<lambda>a b. snd b \<le> snd a) (sorted_desc (count_freq kept))"
    by (rule sorted_desc_sorted)
  then have "sorted_wrt (\<lambda>a b. count_list toks (fst b) \<le> count_list toks (fst a))
               (sorted_desc (count_freq kept))"
  proof (rule sorted_wrt_mono_rel[rotated])
    fix a b
    assume a: "a \<in> set (sorted_desc (count_freq kept))"
      and b: "b \<in> set (sorted_desc (count_freq kept))" and le: "snd b \<le> snd a"
    have *: "snd p = count_list toks (fst p)" if "p \<in> set (sorted_desc (count_freq kept))" for p
    proof -
      from that have p: "p \<in> set (count_freq kept)" by (simp add: sorted_desc_set)
      then have "fst p \<in> set kept" using count_freq_keys[of kept] by force
      then have "fst p \<notin> set stopwords" by (simp add: kept_def)
      with count_freq_snd[OF p] show ?thesis by (simp add: kept_def count_list_filter)
    qed
    from le show "count_list toks (fst b) \<le> count_list toks (fst a)"
      by (simp only: *[OF a] *[OF b])
  qed
  then show "sorted_wrt (\<lambda>a b. count_list toks b \<le> count_list toks a) ranked"
    by (simp add: ranked_def sorted_wrt_map)
qed

section \<open>The tokens are the alphabetic words of three letters and more\<close>

lemma find_words_nonword:
  "\<not> is_wordchar d \<Longrightarrow> find_words prev (d # rest) = find_words False rest"
proof -
  assume d: "\<not> is_wordchar d"
  then have "\<not> is_alpha d" by (simp add: is_wordchar_def)
  then have "find_words prev (d # rest) = find_words (is_wordchar d) rest"
    by (subst find_words.simps(2)) (rule if_not_P, simp)
  with d show ?thesis by (simp del: find_words.simps(2))
qed

lemma find_words_gap:
  "list_all (\<lambda>c. \<not> is_wordchar c) g \<Longrightarrow> find_words False (g @ rest) = find_words False rest"
  by (induction g) (simp_all add: find_words_nonword del: find_words.simps(2))

lemma find_words_within:
  "list_all is_wordchar w \<Longrightarrow> find_words True (w @ rest) = find_words True rest"
proof (induction w)
  case Nil
  then show ?case by simp
next
  case (Cons c w)
  then have c: "is_wordchar c" by simp
  have "find_words True (c # w @ rest) = find_words (is_wordchar c) (w @ rest)"
    by (subst find_words.simps(2)) (rule if_not_P, simp add: c)
  with Cons c show ?case by (simp del: find_words.simps(2))
qed

lemma find_words_after_run:
  "rest = [] \<or> \<not> is_wordchar (hd rest) \<Longrightarrow> find_words True rest = find_words False rest"
  by (cases rest) (simp_all add: find_words_nonword del: find_words.simps(2))

lemma find_words_run:
  assumes r: "r \<noteq> []" "list_all is_wordchar r"
    and rest: "rest = [] \<or> \<not> is_wordchar (hd rest)"
  shows "find_words False (r @ rest) =
           (if 3 \<le> length r \<and> list_all is_alpha r then [r] else []) @ find_words False rest"
proof -
  from r obtain c r' where cr: "r = c # r'" by (cases r) auto
  with r have c: "is_wordchar c" and r': "list_all is_wordchar r'" by simp_all
  have miss: "find_words False (c # r' @ rest) = find_words False rest"
    if "\<not> (False \<noteq> is_wordchar c \<and> 3 \<le> length (takeWhile is_alpha (c # r' @ rest))
         \<and> (case dropWhile is_alpha (c # r' @ rest) of [] \<Rightarrow> True | d # _ \<Rightarrow> \<not> is_wordchar d))"
  proof -
    have "find_words False (c # r' @ rest) = find_words (is_wordchar c) (r' @ rest)"
      by (subst find_words.simps(2)) (rule if_not_P[OF that])
    also have "\<dots> = find_words True rest"
      using c find_words_within[OF r'] by simp
    also have "\<dots> = find_words False rest"
      using rest by (rule find_words_after_run)
    finally show ?thesis .
  qed
  have rest_alpha: "takeWhile is_alpha rest = []" "dropWhile is_alpha rest = rest"
    using rest by (cases rest; simp add: is_wordchar_def)+
  show ?thesis
  proof (cases "list_all is_alpha r")
    case True
    then have tk: "takeWhile is_alpha (r @ rest) = r" and dr: "dropWhile is_alpha (r @ rest) = rest"
      using rest_alpha by (simp_all add: list_all_iff takeWhile_append2 dropWhile_append2)
    show ?thesis
    proof (cases "3 \<le> length r")
      case len: True
      have b: "(case rest of [] \<Rightarrow> True | d # _ \<Rightarrow> \<not> is_wordchar d)"
        using rest by (cases rest) simp_all
      have "find_words False (c # r' @ rest) =
          takeWhile is_alpha (c # r' @ rest) # find_words True (dropWhile is_alpha (c # r' @ rest))"
        by (subst find_words.simps(2), rule if_P) (use len tk dr b c cr in simp)
      also have "\<dots> = r # find_words True rest"
        using tk dr cr by simp
      also have "find_words True rest = find_words False rest"
        using rest by (rule find_words_after_run)
      finally show ?thesis using True len cr by simp
    next
      case False
      with tk cr have "\<not> 3 \<le> length (takeWhile is_alpha (c # r' @ rest))" by simp
      then have "find_words False (c # r' @ rest) = find_words False rest"
        by (intro miss) simp
      with False cr show ?thesis by simp
    qed
  next
    case False
    then obtain x where x: "x \<in> set r" "\<not> is_alpha x" by (auto simp: list_all_iff)
    then have dr: "dropWhile is_alpha (r @ rest) = dropWhile is_alpha r @ rest"
      by (simp add: dropWhile_append1)
    from x have ne: "dropWhile is_alpha r \<noteq> []" by auto
    then obtain d ds where d: "dropWhile is_alpha r = d # ds" by (cases "dropWhile is_alpha r") auto
    then have "d \<in> set r" by (metis list.set_intros(1) set_dropWhileD)
    with r(2) have "is_wordchar d" by (simp add: list_all_iff)
    with dr d cr have "\<not> (case dropWhile is_alpha (c # r' @ rest) of [] \<Rightarrow> True | d # _ \<Rightarrow> \<not> is_wordchar d)"
      by simp
    then have "find_words False (c # r' @ rest) = find_words False rest"
      by (intro miss) simp
    with False cr show ?thesis by simp
  qed
qed

lemma find_words_runs:
  "find_words False s = filter (\<lambda>w. 3 \<le> length w \<and> list_all is_alpha w) (word_runs s)"
proof (induction s rule: word_runs.induct)
  case (1 s)
  let ?g = "takeWhile (\<lambda>c. \<not> is_wordchar c) s"
  let ?s' = "dropWhile (\<lambda>c. \<not> is_wordchar c) s"
  have g: "list_all (\<lambda>c. \<not> is_wordchar c) ?g"
    by (metis (mono_tags, lifting) list_all_iff set_takeWhileD)
  have "find_words False s = find_words False (?g @ ?s')" by simp
  also have "\<dots> = find_words False ?s'" using g by (rule find_words_gap)
  finally have skip: "find_words False s = find_words False ?s'" .
  show ?case
  proof (cases ?s')
    case Nil
    have "word_runs s = []"
      by (subst word_runs.simps) (simp only: Nil list.case)
    moreover from skip have "find_words False s = find_words False []"
      by (simp only: Nil)
    ultimately show ?thesis by simp
  next
    case (Cons c cs)
    let ?r = "takeWhile is_wordchar (c # cs)"
    let ?rest = "dropWhile is_wordchar (c # cs)"
    have c: "is_wordchar c"
      using hd_dropWhile[of "\<lambda>c. \<not> is_wordchar c" s] Cons by simp
    then have r: "?r \<noteq> []" by simp
    have rw: "list_all is_wordchar ?r" by (metis list_all_iff set_takeWhileD)
    have rest: "?rest = [] \<or> \<not> is_wordchar (hd ?rest)"
      using hd_dropWhile[of is_wordchar "c # cs"] by blast
    have "find_words False (c # cs) = find_words False (?r @ ?rest)"
      by (simp only: takeWhile_dropWhile_id)
    also have "\<dots> = (if 3 \<le> length ?r \<and> list_all is_alpha ?r then [?r] else []) @ find_words False ?rest"
      using r rw rest by (rule find_words_run)
    also have "find_words False ?rest = filter (\<lambda>w. 3 \<le> length w \<and> list_all is_alpha w) (word_runs ?rest)"
      using Cons by (rule "1.IH")
    finally have "find_words False (c # cs) =
        filter (\<lambda>w. 3 \<le> length w \<and> list_all is_alpha w) (?r # word_runs ?rest)"
      by simp
    moreover have "word_runs s = ?r # word_runs ?rest"
      by (subst word_runs.simps) (simp only: Cons list.case)
    ultimately show ?thesis using skip Cons by simp
  qed
qed

lemma py_slice_drop_last:
  "k < 0 \<Longrightarrow> py_slice xs 0 k = take (length xs - nat (- k)) xs"
proof -
  assume k: "k < 0"
  have "nat (k + int (length xs)) = length xs - nat (- k)"
    using k by arith
  then show ?thesis
    using k by (auto simp: py_slice_def Let_def max_def)
qed

text \<open>
  Claim C2, as the code has it. The tokens of a text are the words of the lowercased
  text (its maximal runs of letters, digits and underscores) that consist of letters
  only and have at least three of them; they are lowercase.
  \<^verbatim>\<open>extract_keywords\<close> returns a part of a ranking of the tokens, which lists every
  token that is not a stopword exactly once, in descending order of the number of its
  occurrences among the tokens: the first \<open>max_keywords\<close> entries for a non-negative
  \<open>max_keywords\<close>, and all but the last \<open>- max_keywords\<close> entries for a negative one.
\<close>

theorem extract_keywords_ranked:
  "\<exists>ranked. extract_keywords text max_keywords =
         (if 0 \<le> max_keywords then take (nat max_keywords) ranked
          else take (length ranked - nat (- max_keywords)) ranked)
     \<and> distinct ranked
     \<and> set ranked = set (tokens text) - set stopwords
     \<and> sorted_wrt (\<lambda>a b. count_list (tokens text) b \<le> count_list (tokens text) a) ranked
     \<and> tokens text =
         filter (\<lambda>w. 3 \<le> length w \<and> list_all is_alpha w) (word_runs (str_lower text))
     \<and> (\<forall>w \<in> set (tokens text). 3 \<le> length w \<and> list_all is_lower w)"
proof -
  let ?ranked = "map fst (sorted_desc (count_freq (filter (\<lambda>w. w \<notin> set stopwords) (tokens text))))"
  have "extract_keywords text max_keywords =
         (if 0 \<le> max_keywords then take (nat max_keywords) ?ranked
          else take (length ?ranked - nat (- max_keywords)) ?ranked)"
    by (simp add: extract_keywords_def Let_def py_slice_prefix py_slice_drop_last take_map)
  moreover have "\<forall>w \<in> set (tokens text). 3 \<le> length w \<and> list_all is_lower w"
    using tokens_shape by blast
  moreover have "tokens text =
         filter (\<lambda>w. 3 \<le> length w \<and> list_all is_alpha w) (word_runs (str_lower text))"
    unfolding tokens_def by (rule find_words_runs)
  ultimately show ?thesis
    using ranked_sorted[of "tokens text"] by (intro exI[of _ ?ranked]) simp
qed

text \<open>
  The statement on a concrete sentence, at the default \<open>max_keywords = 5\<close> and at 2.
  The words \<open>fox_1\<close> and \<open>gamma1\<close> are not alphabetic, \<open>of\<close> is too short, \<open>the\<close>
  is a stopword; \<open>fox\<close> and \<open>cat\<close> have three letters.
\<close>

theorem extract_keywords_ranked_witness:
  "tokens ''Beta fox_1 alpha beta, the gamma1 of BETA; fox alpha. cat''
     = [''beta'', ''alpha'', ''beta'', ''the'', ''beta'', ''fox'', ''alpha'', ''cat'']
   \<and> extract_keywords ''Beta fox_1 alpha beta, the gamma1 of BETA; fox alpha. cat'' 5
     = [''beta'', ''alpha'', ''fox'', ''cat'']
   \<and> extract_keywords ''Beta fox_1 alpha beta, the gamma1 of BETA; fox alpha. cat'' 2
     = [''beta'', ''alpha'']"
proof -
  let ?t = "''Beta fox_1 alpha beta, the gamma1 of BETA; fox alpha. cat''"
  from extract_keywords_ranked[of ?t 5]
  have "tokens ?t = filter (\<lambda>w. 3 \<le> length w \<and> list_all is_alpha w) (word_runs (str_lower ?t))"
    by blast
  also have "\<dots> = [''beta'', ''alpha'', ''beta'', ''the'', ''beta'', ''fox'', ''alpha'', ''cat'']"
    by code_simp
  finally have "tokens ?t = [''beta'', ''alpha'', ''beta'', ''the'', ''beta'', ''fox'', ''alpha'', ''cat'']" .
  moreover have "extract_keywords ?t 5 = [''beta'', ''alpha'', ''fox'', ''cat'']"
    by code_simp
  moreover have "extract_keywords ?t 2 = [''beta'', ''alpha'']"
    by code_simp
  ultimately show ?thesis by blast
qed

text \<open>
  Claim C2 as worded fails for \<open>max_keywords = -1\<close>: the result has two entries, all
  but the last of the three keywords.
\<close>

theorem extract_keywords_negative_limit:
  "extract_keywords ''alpha beta gamma'' (- 1) = [''alpha'', ''beta'']"
  by code_simp

section \<open>The live context loop\<close>

lemma segment_step_spoken:
  assumes "spoken seg"
  shows "segment_step w doc_id top_n seg tr =
           (Inr (Some (JObj [(''segment'', JObj [(''start'', seg_field seg ''start''),
                                                 (''end'', seg_field seg ''end''),
                                                 (''speaker'', seg_field seg ''speaker''),
                                                 (''text'', JStr (spoken_text seg))]),
                             (''keywords'', JArr (map JStr (extract_keywords (spoken_text seg) 5))),
                             (''context_matches'',
                                fst (find_matches w (spoken_text seg) doc_id top_n tr))])),
            snd (find_matches w (spoken_text seg) doc_id top_n tr))"
proof (cases seg)
  case (JObj kvs)
  show ?thesis
  proof (cases "map_of kvs ''text''")
    case None
    with JObj assms show ?thesis by (simp add: spoken_def str_strip_def)
  next
    case (Some v)
    with JObj assms obtain t where v: "v = JStr t"
      by (cases v) (simp_all add: spoken_def)
    with JObj Some assms show ?thesis
      by (simp add: spoken_def segment_step_def spoken_text_def seg_field_def result_line_def
          get_or_none_def split: prod.splits)
  qed
qed (use assms in \<open>simp_all add: spoken_def\<close>)

lemma segment_step_silent:
  assumes "readable seg" "\<not> spoken seg"
  shows "segment_step w doc_id top_n seg tr = (Inr None, tr)"
proof (cases seg)
  case (JObj kvs)
  show ?thesis
  proof (cases "map_of kvs ''text''")
    case None
    with JObj show ?thesis by (simp add: segment_step_def str_strip_def)
  next
    case (Some v)
    with JObj assms obtain t where v: "v = JStr t"
      by (cases v) (simp_all add: readable_def)
    with JObj Some assms show ?thesis
      by (simp add: spoken_def segment_step_def)
  qed
qed (use assms in \<open>simp_all add: readable_def\<close>)

lemma find_matches_cases:
  assumes "find_matches w text doc_id top_n tr = (m, tr')"
  shows "(case get_embedding w text tr of
            (Inl e, tr1) \<Rightarrow> m = JArr [] \<and> tr' = tr1
          | (Inr embedding, tr1) \<Rightarrow>
              if truthy embedding
              then (case semantic_search w embedding doc_id top_n tr1 of
                      (Inl e, tr2) \<Rightarrow> m = JArr [] \<and> tr' = tr2
                    | (Inr found, tr2) \<Rightarrow> m = found \<and> tr' = tr2)
              else m = JArr [] \<and> tr' = tr1)"
  using assms by (auto simp: find_matches_def split: prod.splits sum.splits if_splits)

lemma segment_loop_lines:
  assumes "list_all readable segs"
  shows "\<exists>ms trs. length ms = length (filter spoken segs) \<and> length trs = Suc (length ms)
          \<and> trs ! 0 = tr
          \<and> segment_loop w doc_id top_n segs out tr =
              (Inr (),
               out @ map2 (\<lambda>seg matches.
                  JObj [(''segment'', JObj [(''start'', seg_field seg ''start''),
                                            (''end'', seg_field seg ''end''),
                                            (''speaker'', seg_field seg ''speaker''),
                                            (''text'', JStr (spoken_text seg))]),
                        (''keywords'', JArr (map JStr (extract_keywords (spoken_text seg) 5))),
                        (''context_matches'', matches)]) (filter spoken segs) ms,
               last trs)
          \<and> (\<forall>i < length ms.
                find_matches w (spoken_text (filter spoken segs ! i)) doc_id top_n (trs ! i)
                  = (ms ! i, trs ! Suc i))"
  using assms
proof (induction segs arbitrary: out tr)
  case Nil
  show ?case by (intro exI[of _ "[]"] exI[of _ "[tr]"]) simp
next
  case (Cons seg segs)
  then have r: "readable seg" and rs: "list_all readable segs" by simp_all
  let ?line = "\<lambda>seg matches.
                  JObj [(''segment'', JObj [(''start'', seg_field seg ''start''),
                                            (''end'', seg_field seg ''end''),
                                            (''speaker'', seg_field seg ''speaker''),
                                            (''text'', JStr (spoken_text seg))]),
                        (''keywords'', JArr (map JStr (extract_keywords (spoken_text seg) 5))),
                        (''context_matches'', matches)]"
  show ?case
  proof (cases "spoken seg")
    case False
    from Cons.IH[OF rs, of tr out] obtain ms trs where
      "length ms = length (filter spoken segs)" "length trs = Suc (length ms)" "trs ! 0 = tr"
      "segment_loop w doc_id top_n segs out tr =
            (Inr (), out @ map2 ?line (filter spoken segs) ms, last trs)"
      "\<forall>i < length ms.
                find_matches w (spoken_text (filter spoken segs ! i)) doc_id top_n (trs ! i)
                  = (ms ! i, trs ! Suc i)"
      by blast
    with False show ?thesis
      by (intro exI[of _ ms] exI[of _ trs]) (simp add: segment_step_silent[OF r False])
  next
    case True
    let ?m = "fst (find_matches w (spoken_text seg) doc_id top_n tr)"
    let ?tr = "snd (find_matches w (spoken_text seg) doc_id top_n tr)"
    from Cons.IH[OF rs, of ?tr "out @ [?line seg ?m]"] obtain ms trs where
      len: "length ms = length (filter spoken segs)" and len2: "length trs = Suc (length ms)"
      and t0: "trs ! 0 = ?tr"
      and run: "segment_loop w doc_id top_n segs (out @ [?line seg ?m]) ?tr =
            (Inr (), (out @ [?line seg ?m]) @ map2 ?line (filter spoken segs) ms, last trs)"
      and steps: "\<forall>i < length ms.
                find_matches w (spoken_text (filter spoken segs ! i)) doc_id top_n (trs ! i)
                  = (ms ! i, trs ! Suc i)"
      by blast
    from len2 have ne: "trs \<noteq> []" by auto
    have "\<forall>i < length (?m # ms).
                find_matches w (spoken_text (filter spoken (seg # segs) ! i)) doc_id top_n ((tr # trs) ! i)
                  = ((?m # ms) ! i, (tr # trs) ! Suc i)"
    proof (intro allI impI)
      fix i assume "i < length (?m # ms)"
      then show "find_matches w (spoken_text (filter spoken (seg # segs) ! i)) doc_id top_n ((tr # trs) ! i)
                  = ((?m # ms) ! i, (tr # trs) ! Suc i)"
        using True t0 steps by (cases i) simp_all
    qed
    moreover have "segment_loop w doc_id top_n (seg # segs) out tr =
            (Inr (), out @ map2 ?line (filter spoken (seg # segs)) (?m # ms), last (tr # trs))"
      using True run ne by (simp add: segment_step_spoken[OF True])
    moreover have "length (?m # ms) = length (filter spoken (seg # segs))"
      using True len by simp
    moreover have "length (tr # trs) = Suc (length (?m # ms))" "(tr # trs) ! 0 = tr"
      using len2 by simp_all
    ultimately show ?thesis
      by (intro exI[of _ "?m # ms"] exI[of _ "tr # trs"] conjI)
  qed
qed

text \<open>
  Claim C4, as the code has it. On a transcript whose segments are objects with a string
  (or no) \<open>text\<close>, the script prints one JSON line for every segment whose text is not
  blank, in order, and nothing for a segment whose text is empty or whitespace. The
  line holds the segment's \<open>start\<close>, \<open>end\<close>, \<open>speaker\<close> and \<open>text\<close> (\<open>null\<close> for
  a field that the segment lacks), the keywords extracted from the text, and the
  context matches: what \<^verbatim>\<open>semantic_search\<close> returns for the embedding of the text
  that \<^verbatim>\<open>get_embedding\<close> returns, and the empty list when the embedding is empty
  or one of the two calls raises. The requests of one segment follow those of the
  segments before it.
\<close>

theorem process_live_context_lines:
  assumes "dict_get data ''segments'' (JArr []) = Inr (JArr segs)"
    and "list_all readable segs"
  shows "\<exists>ms trs. length ms = length (filter spoken segs) \<and> length trs = Suc (length ms)
          \<and> trs ! 0 = tr
          \<and> process_live_context w data doc_id top_n tr =
              (Inr (),
               map2 (\<lambda>seg matches.
                  JObj [(''segment'', JObj [(''start'', seg_field seg ''start''),
                                            (''end'', seg_field seg ''end''),
                                            (''speaker'', seg_field seg ''speaker''),
                                            (''text'', JStr (spoken_text seg))]),
                        (''keywords'', JArr (map JStr (extract_keywords (spoken_text seg) 5))),
                        (''context_matches'', matches)]) (filter spoken segs) ms,
               last trs)
          \<and> (\<forall>i < length ms.
               (case get_embedding w (spoken_text (filter spoken segs ! i)) (trs ! i) of
                  (Inl e, tr1) \<Rightarrow> ms ! i = JArr [] \<and> trs ! Suc i = tr1
                | (Inr embedding, tr1) \<Rightarrow>
                    if truthy embedding
                    then (case semantic_search w embedding doc_id top_n tr1 of
                            (Inl e, tr2) \<Rightarrow> ms ! i = JArr [] \<and> trs ! Suc i = tr2
                          | (Inr found, tr2) \<Rightarrow> ms ! i = found \<and> trs ! Suc i = tr2)
                    else ms ! i = JArr [] \<and> trs ! Suc i = tr1))"
proof -
  from segment_loop_lines[OF assms(2), of tr w doc_id top_n "[]"] obtain ms trs where
    a: "length ms = length (filter spoken segs)" "length trs = Suc (length ms)" "trs ! 0 = tr"
    and run: "segment_loop w doc_id top_n segs [] tr =
              (Inr (),
               [] @ map2 (\<lambda>seg matches.
                  JObj [(''segment'', JObj [(''start'', seg_field seg ''start''),
                                            (''end'', seg_field seg ''end''),
                                            (''speaker'', seg_field seg ''speaker''),
                                            (''text'', JStr (spoken_text seg))]),
                        (''keywords'', JArr (map JStr (extract_keywords (spoken_text seg) 5))),
                        (''context_matches'', matches)]) (filter spoken segs) ms,
               last trs)"
    and steps: "\<forall>i < length ms.
                find_matches w (spoken_text (filter spoken segs ! i)) doc_id top_n (trs ! i)
                  = (ms ! i, trs ! Suc i)"
    by blast
  have "process_live_context w data doc_id top_n tr = segment_loop w doc_id top_n segs [] tr"
    using assms(1) by (simp add: process_live_context_def load_transcript_def ebind_def)
  with a run steps show ?thesis
    by (intro exI[of _ ms] exI[of _ trs] conjI allI impI find_matches_cases) simp_all
qed

text \<open>
  The statement on a transcript of three segments, the second one blank. The embeddings
  API answers, the first search returns one row, and the search for the third segment
  raises: two lines, the first with the row and the second with no matches, after four
  requests.
\<close>

theorem process_live_context_lines_witness:
  "process_live_context world_search_once
     (JObj [(''segments'', JArr [
        JObj [(''start'', JNum (PyInt 0)), (''end'', JNum (PyFloat (5 / 2))),
              (''speaker'', JStr ''SPEAKER_00''), (''text'', JStr ''Budget review, budget cuts'')],
        JObj [(''text'', JStr ''  '')],
        JObj [(''text'', JStr ''thank you'')]])])
     ''doc'' (PyInt 3) []
   = (Inr (),
      [JObj [(''segment'', JObj [(''start'', JNum (PyInt 0)), (''end'', JNum (PyFloat (5 / 2))),
                                 (''speaker'', JStr ''SPEAKER_00''),
                                 (''text'', JStr ''Budget review, budget cuts'')]),
             (''keywords'', JArr [JStr ''budget'', JStr ''review'', JStr ''cuts'']),
             (''context_matches'', JArr [JObj [(''content'', JStr ''budget plan''),
                                               (''similarity'', JNum (PyFloat (3 / 4)))]])],
       JObj [(''segment'', JObj [(''start'', JNull), (''end'', JNull), (''speaker'', JNull),
                                 (''text'', JStr ''thank you'')]),
             (''keywords'', JArr [JStr ''thank'']),
             (''context_matches'', JArr [])]],
      [\<lparr>rq_method = ''POST'', rq_url = ''https://api.openai.com/v1/embeddings'',
        rq_headers = [(''Authorization'', ''Bearer sk''), (''Content-Type'', ''application/json'')],
        rq_params = [],
        rq_json = Some (JObj [(''input'', JStr ''Budget review, budget cuts''),
                              (''model'', JStr ''text-embedding-3-small'')])\<rparr>,
       \<lparr>rq_method = ''POST'', rq_url = ''https://db/rest/v1/rpc/match_doc_chunks'',
        rq_headers = [(''apikey'', ''key''), (''Authorization'', ''Bearer key''),
                      (''Content-Type'', ''application/json'')],
        rq_params = [],
        rq_json = Some (JObj [(''query_embedding'', JArr [JNum (PyFloat (1 / 2)), JNum (PyFloat (- (1 / 4)))]),
                              (''match_count'', JNum (PyInt 3)),
                              (''filter_doc_id'', JStr ''doc'')])\<rparr>,
       \<lparr>rq_method = ''POST'', rq_url = ''https://api.openai.com/v1/embeddings'',
        rq_headers = [(''Authorization'', ''Bearer sk''), (''Content-Type'', ''application/json'')],
        rq_params = [],
        rq_json = Some (JObj [(''input'', JStr ''thank you''),
                              (''model'', JStr ''text-embedding-3-small'')])\<rparr>,
       \<lparr>rq_method = ''POST'', rq_url = ''https://db/rest/v1/rpc/match_doc_chunks'',
        rq_headers = [(''apikey'', ''key''), (''Authorization'', ''Bearer key''),
                      (''Content-Type'', ''application/json'')],
        rq_params = [],
        rq_json = Some (JObj [(''query_embedding'', JArr [JNum (PyFloat (1 / 2)), JNum (PyFloat (- (1 / 4)))]),
                              (''match_count'', JNum (PyInt 3)),
                              (''filter_doc_id'', JStr ''doc'')])\<rparr>])"
proof -
  let ?w = "world_search_once"
  let ?A = "JObj [(''start'', JNum (PyInt 0)), (''end'', JNum (PyFloat (5 / 2))),
              (''speaker'', JStr ''SPEAKER_00''), (''text'', JStr ''Budget review, budget cuts'')] :: rat json"
  let ?B = "JObj [(''text'', JStr ''  '')] :: rat json"
  let ?C = "JObj [(''text'', JStr ''thank you'')] :: rat json"
  let ?emb = "JArr [JNum (PyFloat (1 / 2)), JNum (PyFloat (- (1 / 4)))] :: rat json"
  let ?rows = "JArr [JObj [(''content'', JStr ''budget plan''),
                           (''similarity'', JNum (PyFloat (3 / 4)))]] :: rat json"
  have k1: "extract_keywords ''Budget review, budget cuts'' 5 = [''budget'', ''review'', ''cuts'']"
    by code_simp
  have k2: "extract_keywords ''thank you'' 5 = [''thank'']"
    by code_simp
  have sp: "filter spoken [?A, ?B, ?C] = [?A, ?C]"
    by (simp add: spoken_def str_strip_def is_space_def)
  have tA: "spoken_text ?A = ''Budget review, budget cuts''" and tC: "spoken_text ?C = ''thank you''"
    by (simp_all add: spoken_text_def)
  have e: "get_embedding ?w t tr0 = (Inr ?emb, tr0 @ [embedding_request ?w t])" for t tr0
    by (simp add: get_embedding_def requests_call_def world_search_once_def unset_def
        embedding_request_def raise_for_status_def response_json_def ebind_def)
  have s1: "semantic_search ?w ?emb ''doc'' (PyInt 3) [rq] =
              (Inr ?rows, [rq, rpc_request ?w ?emb ''doc'' (PyInt 3)])" for rq
    by (simp add: semantic_search_def requests_call_def world_search_once_def unset_def
        rpc_request_def response_json_def env_str_def)
  have s2: "semantic_search ?w ?emb ''doc'' (PyInt 3) [rq1, rq2, rq3] =
              (Inl RequestException, [rq1, rq2, rq3, rpc_request ?w ?emb ''doc'' (PyInt 3)])"
    for rq1 rq2 rq3
    by (simp add: semantic_search_def requests_call_def world_search_once_def unset_def
        rpc_request_def env_str_def)
  from process_live_context_lines[of "JObj [(''segments'', JArr [?A, ?B, ?C])]" "[?A, ?B, ?C]"
      "[]" ?w "''doc''" "PyInt 3"]
  obtain ms trs where len: "length ms = length (filter spoken [?A, ?B, ?C])"
    and len2: "length trs = Suc (length ms)" and t0: "trs ! 0 = []"
    and run: "process_live_context ?w (JObj [(''segments'', JArr [?A, ?B, ?C])]) ''doc'' (PyInt 3) [] =
              (Inr (),
               map2 (\<lambda>seg matches.
                  JObj [(''segment'', JObj [(''start'', seg_field seg ''start''),
                                            (''end'', seg_field seg ''end''),
                                            (''speaker'', seg_field seg ''speaker''),
                                            (''text'', JStr (spoken_text seg))]),
                        (''keywords'', JArr (map JStr (extract_keywords (spoken_text seg) 5))),
                        (''context_matches'', matches)]) (filter spoken [?A, ?B, ?C]) ms,
               last trs)"
    and steps: "\<forall>i < length ms.
               (case get_embedding ?w (spoken_text (filter spoken [?A, ?B, ?C] ! i)) (trs ! i) of
                  (Inl e, tr1) \<Rightarrow> ms ! i = JArr [] \<and> trs ! Suc i = tr1
                | (Inr embedding, tr1) \<Rightarrow>
                    if truthy embedding
                    then (case semantic_search ?w embedding ''doc'' (PyInt 3) tr1 of
                            (Inl e, tr2) \<Rightarrow> ms ! i = JArr [] \<and> trs ! Suc i = tr2
                          | (Inr found, tr2) \<Rightarrow> ms ! i = found \<and> trs ! Suc i = tr2)
                    else ms ! i = JArr [] \<and> trs ! Suc i = tr1)"
    by (auto simp: readable_def)
  from len obtain m1 m2 where m: "ms = [m1, m2]"
    unfolding sp by (cases ms; cases "tl ms") auto
  from len2 m obtain u0 u1 u2 where u: "trs = [u0, u1, u2]"
    by (cases trs; cases "tl trs"; cases "tl (tl trs)") auto
  from t0 u have u0: "u0 = []" by simp
  from steps[rule_format, of 0] have st1: "m1 = ?rows"
      "u1 = [embedding_request ?w ''Budget review, budget cuts'', rpc_request ?w ?emb ''doc'' (PyInt 3)]"
    unfolding sp m u u0 by (simp_all add: tA e s1)
  from steps[rule_format, of 1] have st2: "m2 = JArr []"
      "u2 = [embedding_request ?w ''Budget review, budget cuts'', rpc_request ?w ?emb ''doc'' (PyInt 3),
             embedding_request ?w ''thank you'', rpc_request ?w ?emb ''doc'' (PyInt 3)]"
    unfolding sp m u st1 by (simp_all add: tC e s2)
  from run show ?thesis
    unfolding sp m u st1 st2
    by (simp add: tA tC k1 k2 seg_field_def embedding_request_def rpc_request_def env_str_def
        world_search_once_def)
qed

text \<open>
  Claim C4 as worded fails on a transcript whose only segment has a blank text: the
  input has one segment and the script prints no line.
\<close>

theorem process_live_context_blank_segment:
  "process_live_context (world_offline :: int world)
     (JObj [(''segments'', JArr [JObj [(''start'', JNum (PyInt 0)), (''end'', JNum (PyInt 1)),
                                       (''speaker'', JStr ''SPEAKER_00''), (''text'', JStr ''   '')]])])
     ''doc'' (PyInt 3) []
   = (Inr (), [], [])"
  by (simp add: process_live_context_def load_transcript_def ebind_def segment_step_def
      str_strip_def is_space_def)

section \<open>Failures of the external calls\<close>















section \<open>Failures of the embedding and the search in the live context loop\<close>

lemma segment_loop_out:
  "segment_loop w doc_id top_n segs out tr =
     (case segment_loop w doc_id top_n segs [] tr of
        (result, lines, tr') \<Rightarrow> (result, out @ lines, tr'))"
proof (induction segs arbitrary: out tr)
  case Nil
  show ?case by simp
next
  case (Cons seg segs)
  show ?case
  proof (cases "segment_step w doc_id top_n seg tr")
    case (Pair r tr1)
    show ?thesis
    proof (cases r)
      case (Inl e)
      with Pair show ?thesis by simp
    next
      case (Inr l)
      show ?thesis
      proof (cases l)
        case None
        with Pair Inr show ?thesis using Cons.IH[of out tr1] by simp
      next
        case (Some line)
        with Pair Inr show ?thesis
          using Cons.IH[of "out @ [line]" tr1] Cons.IH[of "[line]" tr1]
          by (simp split: prod.splits)
      qed
    qed
  qed
qed

text \<open>
  Claim C10. \<open>segment_loop\<close> is the \<^verbatim>\<open>for\<close> loop of \<^verbatim>\<open>process_live_context\<close>, at
  any point of the run: \<open>out\<close> holds the lines printed and \<open>tr\<close> the requests issued
  so far. When the next segment has a non-blank text and \<^verbatim>\<open>get_embedding\<close> raises
  or returns the empty list for it, or returns an embedding for which
  \<^verbatim>\<open>semantic_search\<close> raises, the loop prints the segment's line, with its fields,
  the keywords of its text and an empty list of context matches, and processes the
  remaining segments as a run of their own does after the requests of this segment.
\<close>

theorem embedding_failure_contained:
  assumes "map_of kvs ''text'' = Some (JStr text)" and "str_strip text \<noteq> []"
    and "get_embedding w text tr = (r, tr1)"
    and "(\<exists>e. r = Inl e) \<and> tr' = tr1
       \<or> r = Inr (JArr []) \<and> tr' = tr1
       \<or> (\<exists>embedding e. r = Inr embedding \<and> truthy embedding
             \<and> semantic_search w embedding doc_id top_n tr1 = (Inl e, tr'))"
  shows "segment_loop w doc_id top_n (JObj kvs # segs) out tr =
     (case segment_loop w doc_id top_n segs [] tr' of
        (result, lines, tr'') \<Rightarrow>
          (result,
           out @ [JObj [(''segment'',
                           JObj [(''start'', case map_of kvs ''start'' of None \<Rightarrow> JNull | Some v \<Rightarrow> v),
                                 (''end'', case map_of kvs ''end'' of None \<Rightarrow> JNull | Some v \<Rightarrow> v),
                                 (''speaker'', case map_of kvs ''speaker'' of None \<Rightarrow> JNull | Some v \<Rightarrow> v),
                                 (''text'', JStr text)]),
                        (''keywords'', JArr (map JStr (extract_keywords text 5))),
                        (''context_matches'', JArr [])]] @ lines,
           tr''))"
proof -
  from assms(3,4) have "find_matches w text doc_id top_n tr = (JArr [], tr')"
    by (auto simp: find_matches_def)
  with assms(1,2) have "segment_step w doc_id top_n (JObj kvs) tr =
      (Inr (Some (result_line kvs text (extract_keywords text 5) (JArr []))), tr')"
    by (simp add: segment_step_def)
  then have "segment_loop w doc_id top_n (JObj kvs # segs) out tr =
      segment_loop w doc_id top_n segs
        (out @ [result_line kvs text (extract_keywords text 5) (JArr [])]) tr'"
    by simp
  also have "\<dots> = (case segment_loop w doc_id top_n segs [] tr' of
        (result, lines, tr'') \<Rightarrow>
          (result, (out @ [result_line kvs text (extract_keywords text 5) (JArr [])]) @ lines, tr''))"
    by (rule segment_loop_out)
  finally show ?thesis
    by (simp add: result_line_def get_or_none_def split: prod.splits)
qed

text \<open>
  The statement on transcripts of two segments, in three worlds: one where the
  embedding request raises, one without an OpenAI key, where \<^verbatim>\<open>get_embedding\<close>
  returns the empty list without a request, and one where the embedding arrives and
  the search request raises. Each run prints both lines, with no matches.
\<close>

theorem embedding_failure_contained_witness:
  "process_live_context (world_no_network :: rat world)
     (JObj [(''segments'', JArr [
        JObj [(''start'', JNum (PyFloat (1 / 2))), (''end'', JNum (PyInt 2)),
              (''speaker'', JStr ''SPEAKER_01''), (''text'', JStr ''alpha beta'')],
        JObj [(''text'', JStr ''gamma'')]])])
     ''doc'' (PyInt 3) []
   = (Inr (),
      [JObj [(''segment'', JObj [(''start'', JNum (PyFloat (1 / 2))), (''end'', JNum (PyInt 2)),
                                 (''speaker'', JStr ''SPEAKER_01''), (''text'', JStr ''alpha beta'')]),
             (''keywords'', JArr [JStr ''alpha'', JStr ''beta'']),
             (''context_matches'', JArr [])],
       JObj [(''segment'', JObj [(''start'', JNull), (''end'', JNull), (''speaker'', JNull),
                                 (''text'', JStr ''gamma'')]),
             (''keywords'', JArr [JStr ''gamma'']),
             (''context_matches'', JArr [])]],
      [\<lparr>rq_method = ''POST'', rq_url = ''https://api.openai.com/v1/embeddings'',
        rq_headers = [(''Authorization'', ''Bearer sk''), (''Content-Type'', ''application/json'')],
        rq_params = [],
        rq_json = Some (JObj [(''input'', JStr ''alpha beta''),
                              (''model'', JStr ''text-embedding-3-small'')])\<rparr>,
       \<lparr>rq_method = ''POST'', rq_url = ''https://api.openai.com/v1/embeddings'',
        rq_headers = [(''Authorization'', ''Bearer sk''), (''Content-Type'', ''application/json'')],
        rq_params = [],
        rq_json = Some (JObj [(''input'', JStr ''gamma''),
                              (''model'', JStr ''text-embedding-3-small'')])\<rparr>])
   \<and> process_live_context world_no_openai_key
     (JObj [(''segments'', JArr [JObj [(''text'', JStr ''alpha beta'')],
                                 JObj [(''text'', JStr ''gamma'')]])])
     ''doc'' (PyInt 3) []
   = (Inr (),
      [JObj [(''segment'', JObj [(''start'', JNull), (''end'', JNull), (''speaker'', JNull),
                                 (''text'', JStr ''alpha beta'')]),
             (''keywords'', JArr [JStr ''alpha'', JStr ''beta'']),
             (''context_matches'', JArr [])],
       JObj [(''segment'', JObj [(''start'', JNull), (''end'', JNull), (''speaker'', JNull),
                                 (''text'', JStr ''gamma'')]),
             (''keywords'', JArr [JStr ''gamma'']),
             (''context_matches'', JArr [])]],
      [])
   \<and> process_live_context world_search_down
     (JObj [(''segments'', JArr [JObj [(''text'', JStr ''alpha beta'')],
                                 JObj [(''text'', JStr ''gamma'')]])])
     ''doc'' (PyInt 3) []
   = (Inr (),
      [JObj [(''segment'', JObj [(''start'', JNull), (''end'', JNull), (''speaker'', JNull),
                                 (''text'', JStr ''alpha beta'')]),
             (''keywords'', JArr [JStr ''alpha'', JStr ''beta'']),
             (''context_matches'', JArr [])],
       JObj [(''segment'', JObj [(''start'', JNull), (''end'', JNull), (''speaker'', JNull),
                                 (''text'', JStr ''gamma'')]),
             (''keywords'', JArr [JStr ''gamma'']),
             (''context_matches'', JArr [])]],
      [\<lparr>rq_method = ''POST'', rq_url = ''https://api.openai.com/v1/embeddings'',
        rq_headers = [(''Authorization'', ''Bearer sk''), (''Content-Type'', ''application/json'')],
        rq_params = [],
        rq_json = Some (JObj [(''input'', JStr ''alpha beta''),
                              (''model'', JStr ''text-embedding-3-small'')])\<rparr>,
       \<lparr>rq_method = ''POST'', rq_url = ''https://db/rest/v1/rpc/match_doc_chunks'',
        rq_headers = [(''apikey'', ''key''), (''Authorization'', ''Bearer key''),
                      (''Content-Type'', ''application/json'')],
        rq_params = [],
        rq_json = Some (JObj [(''query_embedding'', JArr [JNum (PyFloat (1 / 2))]),
                              (''match_count'', JNum (PyInt 3)),
                              (''filter_doc_id'', JStr ''doc'')])\<rparr>,
       \<lparr>rq_method = ''POST'', rq_url = ''https://api.openai.com/v1/embeddings'',
        rq_headers = [(''Authorization'', ''Bearer sk''), (''Content-Type'', ''application/json'')],
        rq_params = [],
        rq_json = Some (JObj [(''input'', JStr ''gamma''),
                              (''model'', JStr ''text-embedding-3-small'')])\<rparr>,
       \<lparr>rq_method = ''POST'', rq_url = ''https://db/rest/v1/rpc/match_doc_chunks'',
        rq_headers = [(''apikey'', ''key''), (''Authorization'', ''Bearer key''),
                      (''Content-Type'', ''application/json'')],
        rq_params = [],
        rq_json = Some (JObj [(''query_embedding'', JArr [JNum (PyFloat (1 / 2))]),
                              (''match_count'', JNum (PyInt 3)),
                              (''filter_doc_id'', JStr ''doc'')])\<rparr>])"
proof -
  let ?S = "[(''start'', JNum (PyFloat (1 / 2))), (''end'', JNum (PyInt 2)),
             (''speaker'', JStr ''SPEAKER_01''), (''text'', JStr ''alpha beta'')] :: (string \<times> rat json) list"
  let ?A = "[(''text'', JStr ''alpha beta'')] :: (string \<times> rat json) list"
  let ?G = "[(''text'', JStr ''gamma'')] :: (string \<times> rat json) list"
  let ?emb = "JArr [JNum (PyFloat (1 / 2))] :: rat json"
  have k1: "extract_keywords ''alpha beta'' 5 = [''alpha'', ''beta'']"
    and k2: "extract_keywords ''gamma'' 5 = [''gamma'']"
    by code_simp+
  have s1: "str_strip ''alpha beta'' \<noteq> []" and s2: "str_strip ''gamma'' \<noteq> []"
    by (simp_all add: str_strip_def is_space_def)
  have tS: "map_of ?S ''text'' = Some (JStr ''alpha beta'')"
    and tA: "map_of ?A ''text'' = Some (JStr ''alpha beta'')"
    and tG: "map_of ?G ''text'' = Some (JStr ''gamma'')"
    by simp_all
  have p: "process_live_context w (JObj [(''segments'', JArr segs)]) ''doc'' (PyInt 3) [] =
             segment_loop w ''doc'' (PyInt 3) segs [] []" for w :: "rat world" and segs
    by (simp add: process_live_context_def load_transcript_def ebind_def)

  let ?w1 = "world_no_network :: rat world"
  have e1: "get_embedding ?w1 t tr0 = (Inl RequestException, tr0 @ [embedding_request ?w1 t])" for t tr0
    by (simp add: get_embedding_def requests_call_def world_no_network_def unset_def)
  have x1: "(\<exists>e. (Inl RequestException :: exn + rat json) = Inl e) \<and> tr0 = tr0
       \<or> (Inl RequestException :: exn + rat json) = Inr (JArr []) \<and> tr0 = tr0
       \<or> (\<exists>embedding e. (Inl RequestException :: exn + rat json) = Inr embedding \<and> truthy embedding
             \<and> semantic_search ?w1 embedding ''doc'' (PyInt 3) tr0 = (Inl e, tr0))" for tr0
    by simp
  have r1: "process_live_context ?w1 (JObj [(''segments'', JArr [JObj ?S, JObj ?G])]) ''doc'' (PyInt 3) []
      = (Inr (),
         [JObj [(''segment'', JObj [(''start'', JNum (PyFloat (1 / 2))), (''end'', JNum (PyInt 2)),
                                 (''speaker'', JStr ''SPEAKER_01''), (''text'', JStr ''alpha beta'')]),
             (''keywords'', JArr [JStr ''alpha'', JStr ''beta'']),
             (''context_matches'', JArr [])],
          JObj [(''segment'', JObj [(''start'', JNull), (''end'', JNull), (''speaker'', JNull),
                                 (''text'', JStr ''gamma'')]),
             (''keywords'', JArr [JStr ''gamma'']),
             (''context_matches'', JArr [])]],
         [embedding_request ?w1 ''alpha beta'', embedding_request ?w1 ''gamma''])"
    unfolding p
      embedding_failure_contained[OF tS s1 e1 x1]
      embedding_failure_contained[OF tG s2 e1 x1]
    by (simp add: k1 k2)

  let ?w2 = "world_no_openai_key"
  have e2: "get_embedding ?w2 t tr0 = (Inr (JArr []), tr0)" for t tr0
    by (simp add: get_embedding_def world_no_openai_key_def unset_def)
  have x2: "(\<exists>e. (Inr (JArr []) :: exn + rat json) = Inl e) \<and> tr0 = tr0
       \<or> (Inr (JArr []) :: exn + rat json) = Inr (JArr []) \<and> tr0 = tr0
       \<or> (\<exists>embedding e. (Inr (JArr []) :: exn + rat json) = Inr embedding \<and> truthy embedding
             \<and> semantic_search ?w2 embedding ''doc'' (PyInt 3) tr0 = (Inl e, tr0))" for tr0
    by simp
  have r2: "process_live_context ?w2 (JObj [(''segments'', JArr [JObj ?A, JObj ?G])]) ''doc'' (PyInt 3) []
      = (Inr (),
         [JObj [(''segment'', JObj [(''start'', JNull), (''end'', JNull), (''speaker'', JNull),
                                 (''text'', JStr ''alpha beta'')]),
             (''keywords'', JArr [JStr ''alpha'', JStr ''beta'']),
             (''context_matches'', JArr [])],
          JObj [(''segment'', JObj [(''start'', JNull), (''end'', JNull), (''speaker'', JNull),
                                 (''text'', JStr ''gamma'')]),
             (''keywords'', JArr [JStr ''gamma'']),
             (''context_matches'', JArr [])]],
         [])"
    unfolding p
      embedding_failure_contained[OF tA s1 e2 x2]
      embedding_failure_contained[OF tG s2 e2 x2]
    by (simp add: k1 k2)

  let ?w3 = "world_search_down"
  have e3: "get_embedding ?w3 t tr0 = (Inr ?emb, tr0 @ [embedding_request ?w3 t])" for t tr0
    by (simp add: get_embedding_def requests_call_def world_search_down_def unset_def
        embedding_request_def raise_for_status_def response_json_def ebind_def)
  have q3: "semantic_search ?w3 ?emb ''doc'' (PyInt 3) tr0 =
              (Inl RequestException, tr0 @ [rpc_request ?w3 ?emb ''doc'' (PyInt 3)])" for tr0
    by (simp add: semantic_search_def requests_call_def world_search_down_def unset_def
        rpc_request_def env_str_def)
  have x3: "(\<exists>e. (Inr ?emb :: exn + rat json) = Inl e)
          \<and> tr0 @ [rpc_request ?w3 ?emb ''doc'' (PyInt 3)] = tr0
       \<or> (Inr ?emb :: exn + rat json) = Inr (JArr [])
          \<and> tr0 @ [rpc_request ?w3 ?emb ''doc'' (PyInt 3)] = tr0
       \<or> (\<exists>embedding e. (Inr ?emb :: exn + rat json) = Inr embedding \<and> truthy embedding
             \<and> semantic_search ?w3 embedding ''doc'' (PyInt 3) tr0
                 = (Inl e, tr0 @ [rpc_request ?w3 ?emb ''doc'' (PyInt 3)]))" for tr0
    by (simp add: q3)
  have r3: "process_live_context ?w3 (JObj [(''segments'', JArr [JObj ?A, JObj ?G])]) ''doc'' (PyInt 3) []
      = (Inr (),
         [JObj [(''segment'', JObj [(''start'', JNull), (''end'', JNull), (''speaker'', JNull),
                                 (''text'', JStr ''alpha beta'')]),
             (''keywords'', JArr [JStr ''alpha'', JStr ''beta'']),
             (''context_matches'', JArr [])],
          JObj [(''segment'', JObj [(''start'', JNull), (''end'', JNull), (''speaker'', JNull),
                                 (''text'', JStr ''gamma'')]),
             (''keywords'', JArr [JStr ''gamma'']),
             (''context_matches'', JArr [])]],
         [embedding_request ?w3 ''alpha beta'', rpc_request ?w3 ?emb ''doc'' (PyInt 3),
          embedding_request ?w3 ''gamma'', rpc_request ?w3 ?emb ''doc'' (PyInt 3)])"
    unfolding p
      embedding_failure_contained[OF tA s1 e3 x3]
      embedding_failure_contained[OF tG s2 e3 x3]
    by (simp add: k1 k2)
  from r1 r2 r3 show ?thesis
    by (simp add: embedding_request_def rpc_request_def env_str_def world_no_network_def
        world_search_down_def)
qed

section \<open>The adversarial analysis report\<close>







section \<open>Transcripts without segments\<close>

lemma run_analyses_without_key:
  assumes "unset (OPENAI_API_KEY w)"
  shows "\<exists>rep. run_analyses py w n m transcript_text doc_text tr = (Inr rep, [rep], tr)"
  using assms
  by (simp add: run_analyses_def coherence_analysis_def tone_deception_analysis_def
      adversarial_summary_def labelled_def call_openai_def)

text \<open>
  Claim C9. For a JSON object without the key \<open>segments\<close>, or
  with an empty list under it, \<^verbatim>\<open>load_transcript\<close> returns the empty list. The
  live context script then prints nothing, issues no request and ends without an
  exception. The adversarial analysis script gets through its transcript stage without
  an exception, with zero segments and the empty transcript text, so that its outcome is
  that of the stages that call the external services: it ends with an exception exactly
  when one of those calls raises one, and where no credentials are set, it prints its
  report.
\<close>

theorem no_segments_no_failure:
  assumes "map_of kvs ''segments'' = None \<or> map_of kvs ''segments'' = Some (JArr [])"
  shows "load_transcript (JObj kvs) = Inr (JArr [])
    \<and> process_live_context w (JObj kvs) doc_id top_n tr = (Inr (), [], tr)
    \<and> run_full_analysis py w (JObj kvs) doc tr =
         (case load_documents w doc tr of
            (Inl e, tr') \<Rightarrow> (Inl e, [], tr')
          | (Inr (doc_text, m), tr') \<Rightarrow> run_analyses py w 0 m '''' doc_text tr')
    \<and> (unset (OPENAI_API_KEY w) \<and> (unset (SUPABASE_URL w) \<or> unset (SUPABASE_KEY w)) \<longrightarrow>
         (\<exists>rep. run_full_analysis py w (JObj kvs) doc tr = (Inr rep, [rep], tr)))"
proof -
  have l: "load_transcript (JObj kvs) = Inr (JArr [])"
    using assms by (auto simp: load_transcript_def)
  have live: "process_live_context w (JObj kvs) doc_id top_n tr = (Inr (), [], tr)"
    by (simp add: process_live_context_def l ebind_def)
  have adv: "run_full_analysis py w (JObj kvs) doc tr =
         (case load_documents w doc tr of
            (Inl e, tr') \<Rightarrow> (Inl e, [], tr')
          | (Inr (doc_text, m), tr') \<Rightarrow> run_analyses py w 0 m '''' doc_text tr')"
    by (simp add: run_full_analysis_def l ebind_def format_transcript_def)
  have "\<exists>rep. run_full_analysis py w (JObj kvs) doc tr = (Inr rep, [rep], tr)"
    if "unset (OPENAI_API_KEY w)" "unset (SUPABASE_URL w) \<or> unset (SUPABASE_KEY w)"
  proof -
    from that(2) have "\<exists>m. load_documents w doc tr = (Inr ('''', m), tr)"
      by (auto simp: load_documents_def get_document_chunks_def ebind_def split: option.splits)
    then obtain m where "load_documents w doc tr = (Inr ('''', m), tr)" by blast
    with run_analyses_without_key[OF that(1), of py 0 m "''''" "''''" tr] show ?thesis
      unfolding adv by simp
  qed
  with l live adv show ?thesis by blast
qed

text \<open>
  The statement on the empty object, without credentials: no output of the live context
  script, and a report of the analysis script.
\<close>

theorem no_segments_no_failure_witness:
  "load_transcript (JObj [] :: int json) = Inr (JArr [])
   \<and> process_live_context (world_offline :: int world) (JObj []) ''doc'' (PyInt 3) [] = (Inr (), [], [])
   \<and> (\<exists>rep. run_full_analysis py_stub world_offline (JObj []) (Some ''doc'') [] = (Inr rep, [rep], []))"
proof -
  have a: "map_of ([] :: (string \<times> int json) list) ''segments'' = None
         \<or> map_of ([] :: (string \<times> int json) list) ''segments'' = Some (JArr [])"
    by simp
  have b: "unset (OPENAI_API_KEY (world_offline :: int world))
     \<and> (unset (SUPABASE_URL (world_offline :: int world)) \<or> unset (SUPABASE_KEY (world_offline :: int world)))"
    by (simp add: world_offline_def unset_def)
  from no_segments_no_failure[OF a, of "world_offline :: int world" "''doc''" "PyInt 3" "[]" py_stub "Some ''doc''"] b
  show ?thesis by blast
qed

section \<open>The result of a document ingestion\<close>

lemma extract_text_returns:
  "extract_text fs file_path = (Inr content, out) \<Longrightarrow> out = []"
  by (auto simp: extract_text_def Let_def split: if_splits sum.splits option.splits)

lemma get_embeddings_returns:
  "get_embeddings fs w texts tr = (Inr embeddings, out, tr') \<Longrightarrow> out = []"
  by (auto simp: get_embeddings_def split: if_splits sum.splits prod.splits)

lemma store_chunks_returns:
  "store_chunks_in_supabase w doc_id chunks embeddings tr = (Inr u, out, tr') \<Longrightarrow> out = []"
  by (auto simp: store_chunks_in_supabase_def split: if_splits sum.splits prod.splits)

text \<open>
  Claim C7. Whenever the ingestion script returns, its standard output is exactly one
  line, the JSON object with the document id, \<open>chunks_created\<close> equal to the number of
  chunks that \<^verbatim>\<open>chunk_text\<close> makes of the extracted text, and the status
  \<open>success\<close>.
\<close>

theorem ingest_success_line:
  assumes "ingest_main fs w file_path doc_id tr = (Inr result, out, tr')"
  shows "\<exists>content chunks.
      extract_text fs file_path = (Inr content, ([] :: 'f line list))
    \<and> chunk_text content 500 50 = Some chunks
    \<and> result = JObj [(''doc_id'', JStr doc_id),
                     (''chunks_created'', JNum (PyInt (int (length chunks)))),
                     (''status'', JStr ''success'')]
    \<and> out = [Json result :: 'f line]"
proof -
  from assms have doc: "ingest_document fs w file_path doc_id tr = (Inr result, out, tr')"
    by (simp add: ingest_main_def split: if_splits)
  then obtain content out0 chunks embeddings out1 tr1 u out2 where
    e: "extract_text fs file_path = (Inr content, (out0 :: 'f line list))" and
    c: "chunk_text content 500 50 = Some chunks" and
    g: "get_embeddings fs w chunks tr = (Inr embeddings, out1, tr1)" and
    s: "store_chunks_in_supabase w doc_id chunks embeddings tr1 = (Inr u, out2, tr')" and
    r: "result = ingest_result doc_id (length chunks)" and
    o: "out = out0 @ out1 @ out2 @ [Json (ingest_result doc_id (length chunks))]"
    by (auto simp: ingest_document_def split: prod.splits sum.splits option.splits)
  from extract_text_returns[OF e] get_embeddings_returns[OF g] store_chunks_returns[OF s]
  have "out0 = []" "out1 = []" "out2 = []" by simp_all
  with e c r o show ?thesis
    by (simp add: ingest_result_def)
qed

text \<open>
  The statement on a text file of three words, in a world that answers every request
  with status 200: one chunk.
\<close>

theorem ingest_success_line_witness:
  "\<exists>tr'. ingest_main files_notes (world_all_ok :: int world) ''notes.txt'' ''doc-1'' [] =
     (Inr (JObj [(''doc_id'', JStr ''doc-1''), (''chunks_created'', JNum (PyInt 1)),
                 (''status'', JStr ''success'')]),
      [Json (JObj [(''doc_id'', JStr ''doc-1''), (''chunks_created'', JNum (PyInt 1)),
                   (''status'', JStr ''success'')])],
      tr')"
proof -
  let ?w = "world_all_ok :: int world"
  have ext: "str_lower (splitext_ext ''notes.txt'') = ''.txt''"
    by code_simp
  have e: "extract_text files_notes ''notes.txt'' = (Inr ''alpha beta gamma'', ([] :: int line list))"
    by (simp add: extract_text_def ext files_notes_def)
  have c: "chunk_text ''alpha beta gamma'' 500 50 = Some [''alpha beta gamma'']"
    by code_simp
  have g: "get_embeddings files_notes ?w [''alpha beta gamma''] [] =
      (Inr [JArr []], [], [embeddings_request ?w [''alpha beta gamma'']])"
    by (simp add: get_embeddings_def requests_call_def world_all_ok_def unset_def
        raise_for_status_def response_json_def ebind_def)
  have p: "path_exists files_notes ''notes.txt''"
    by (simp add: files_notes_def)
  have s: "\<exists>tr'. store_chunks_in_supabase ?w ''doc-1'' [''alpha beta gamma''] [JArr []] tr1
             = (Inr (), [], tr')" for tr1
    by (simp add: store_chunks_in_supabase_def requests_call_def world_all_ok_def unset_def)
  then obtain tr2 where s2: "store_chunks_in_supabase ?w ''doc-1'' [''alpha beta gamma''] [JArr []]
      [embeddings_request ?w [''alpha beta gamma'']] = (Inr (), [], tr2)" by blast
  have "\<exists>result out tr'. ingest_main files_notes ?w ''notes.txt'' ''doc-1'' [] = (Inr result, out, tr')"
    by (simp add: ingest_main_def ingest_document_def p e c g s2)
  then obtain result out tr' where
    run: "ingest_main files_notes ?w ''notes.txt'' ''doc-1'' [] = (Inr result, out, tr')" by blast
  from ingest_success_line[OF run] obtain content chunks where
    "extract_text files_notes ''notes.txt'' = (Inr content, ([] :: int line list))"
    "chunk_text content 500 50 = Some chunks"
    "result = JObj [(''doc_id'', JStr ''doc-1''),
                     (''chunks_created'', JNum (PyInt (int (length chunks)))),
                     (''status'', JStr ''success'')]"
    "out = [Json result]"
    by blast
  with e c run show ?thesis by auto
qed

section \<open>The tokens of a plain sentence\<close>

lemma is_alpha_not_blank: "\<not> is_alpha CHR '' ''" "\<not> is_wordchar CHR '' ''"
  by (simp_all add: is_alpha_def is_wordchar_def is_lower_def is_upper_def is_digit_def)

lemma find_words_inside:
  "list_all is_alpha w \<Longrightarrow> find_words True (w @ rest) = find_words True rest"
proof (induction w)
  case Nil
  then show ?case by simp
next
  case (Cons c w)
  then have c: "is_wordchar c" by (simp add: is_wordchar_def)
  have "find_words True (c # w @ rest) = find_words (is_wordchar c) (w @ rest)"
    by (subst find_words.simps(2)) (rule if_not_P, simp add: c)
  with Cons c show ?case by (simp del: find_words.simps(2))
qed

lemma find_words_blank: "find_words prev (CHR '' '' # rest) = find_words False rest"
proof -
  have "find_words prev (CHR '' '' # rest) = find_words (is_wordchar CHR '' '') rest"
    by (subst find_words.simps(2)) (rule if_not_P, simp add: is_alpha_not_blank)
  then show ?thesis by (simp add: is_alpha_not_blank del: find_words.simps(2))
qed

lemma find_words_word:
  assumes w: "w \<noteq> []" "list_all is_alpha w"
    and rest: "rest = [] \<or> (\<exists>r. rest = CHR '' '' # r)"
  shows "find_words False (w @ rest) = (if 3 \<le> length w then [w] else []) @ find_words True rest"
proof -
  from w obtain c w' where cw: "w = c # w'" by (cases w) auto
  with w have c: "is_alpha c" "is_wordchar c" by (simp_all add: is_wordchar_def)
  from rest have tk: "takeWhile is_alpha (w @ rest) = w" and dr: "dropWhile is_alpha (w @ rest) = rest"
    using w(2) by (auto simp: list_all_iff takeWhile_append2 dropWhile_append2 is_alpha_not_blank)
  from rest have b: "(case rest of [] \<Rightarrow> True | d # x \<Rightarrow> \<not> is_wordchar d)"
    by (auto simp: is_alpha_not_blank)
  show ?thesis
  proof (cases "3 \<le> length w")
    case True
    have "find_words False (c # w' @ rest) =
        takeWhile is_alpha (c # w' @ rest) # find_words True (dropWhile is_alpha (c # w' @ rest))"
      by (subst find_words.simps(2), rule if_P) (use True tk dr b c cw in simp)
    with True tk dr cw show ?thesis by (simp del: find_words.simps(2))
  next
    case False
    have "find_words False (c # w' @ rest) = find_words (is_wordchar c) (w' @ rest)"
      by (subst find_words.simps(2), rule if_not_P) (use False tk cw in simp)
    moreover have "find_words True (w' @ rest) = find_words True rest"
      using w(2) cw by (intro find_words_inside) simp
    ultimately show ?thesis using False c cw by (simp del: find_words.simps(2))
  qed
qed

lemma find_words_sentence:
  "list_all (\<lambda>w. w \<noteq> [] \<and> list_all is_alpha w) ws \<Longrightarrow>
     find_words False (str_join '' '' ws) = filter (\<lambda>w. 3 \<le> length w) ws"
proof (induction "'' ''" ws rule: str_join.induct)
  case 1
  then show ?case by simp
next
  case (2 w)
  then show ?case using find_words_word[of w "[]"] by (simp del: find_words.simps(2))
next
  case (3 w v ws)
  from 3(2) have "find_words False (w @ CHR '' '' # str_join '' '' (v # ws)) =
      (if 3 \<le> length w then [w] else []) @ find_words True (CHR '' '' # str_join '' '' (v # ws))"
    by (intro find_words_word) simp_all
  then show ?case using 3 by (simp add: find_words_blank del: find_words.simps(2))
qed

lemma str_lower_lowercase:
  "list_all (\<lambda>c. \<not> is_upper c) s \<Longrightarrow> str_lower s = s"
  by (induction s) (simp_all add: str_lower_def lower_char_def)

lemma not_upper_join:
  "list_all (\<lambda>w. list_all is_lower w) ws \<Longrightarrow> list_all (\<lambda>c. \<not> is_upper c) (str_join '' '' ws)"
proof (induction "'' ''" ws rule: str_join.induct)
  case 1
  then show ?case by simp
next
  case (2 w)
  then show ?case by (auto simp: list_all_iff is_lower_def is_upper_def Let_def)
next
  case (3 w v ws)
  then show ?case by (auto simp: list_all_iff is_lower_def is_upper_def Let_def)
qed

text \<open>
  On a sentence of lowercase words separated by single blanks, the tokens are the words of
  at least three letters, in order.
\<close>

theorem tokens_of_sentence:
  assumes "list_all (\<lambda>w. w \<noteq> [] \<and> list_all is_lower w) ws"
  shows "tokens (str_join '' '' ws) = filter (\<lambda>w. 3 \<le> length w) ws"
proof -
  from assms have "list_all (\<lambda>w. list_all is_lower w) ws" by (simp add: list_all_iff)
  then have "str_lower (str_join '' '' ws) = str_join '' '' ws"
    by (intro str_lower_lowercase not_upper_join)
  moreover from assms have "list_all (\<lambda>w. w \<noteq> [] \<and> list_all is_alpha w) ws"
    by (simp add: list_all_iff is_alpha_def)
  ultimately show ?thesis
    by (simp add: tokens_def find_words_sentence)
qed

theorem tokens_of_sentence_witness:
  "tokens ''we saw an old red fox'' = [''saw'', ''old'', ''red'', ''fox'']"
proof -
  have "list_all (\<lambda>w. w \<noteq> [] \<and> list_all is_lower w) [''we'', ''saw'', ''an'', ''old'', ''red'', ''fox'']"
    by (simp add: is_lower_def)
  from tokens_of_sentence[OF this] show ?thesis by simp
qed

section \<open>The transcript written by the transcription script\<close>

lemma str_strip_stripped:
  "str_strip s = [] \<or> (\<not> is_space (hd (str_strip s)) \<and> \<not> is_space (last (str_strip s)))"
proof (cases "str_strip s = []")
  case False
  let ?a = "dropWhile is_space s"
  let ?b = "dropWhile is_space (rev ?a)"
  from False have b: "?b \<noteq> []" by (simp add: str_strip_def)
  then have "\<not> is_space (hd ?b)" by (rule hd_dropWhile)
  with b have l: "\<not> is_space (last (str_strip s))"
    by (simp add: str_strip_def last_rev)
  from b have a: "?a \<noteq> []" by (rule contrapos_nn) (simp only: rev.simps dropWhile.simps)
  then have ha: "\<not> is_space (hd ?a)" by (rule hd_dropWhile)
  have "\<exists>ys. ?a = rev ?b @ ys"
    by (metis rev_append rev_rev_ident takeWhile_dropWhile_id)
  then obtain ys where "?a = rev ?b @ ys" by blast
  with b have "hd ?a = hd (rev ?b)" by (metis hd_append2 rev_is_Nil_conv)
  with ha have "\<not> is_space (hd (str_strip s))" by (simp add: str_strip_def)
  with l show ?thesis by simp
qed simp

lemma str_strip_decomp:
  "\<exists>a b. s = a @ str_strip s @ b \<and> list_all is_space a \<and> list_all is_space b"
proof -
  let ?d = "dropWhile is_space s"
  have "?d = rev (dropWhile is_space (rev ?d)) @ rev (takeWhile is_space (rev ?d))"
    by (metis rev_append rev_rev_ident takeWhile_dropWhile_id)
  then have d: "?d = str_strip s @ rev (takeWhile is_space (rev ?d))"
    by (simp only: str_strip_def)
  have "s = takeWhile is_space s @ ?d" by simp
  with d have "s = takeWhile is_space s @ str_strip s @ rev (takeWhile is_space (rev ?d))"
    by simp
  moreover have "list_all is_space (takeWhile is_space s)"
    by (metis list_all_iff set_takeWhileD)
  moreover have "list_all is_space (rev (takeWhile is_space (rev ?d)))"
    by (metis list_all_iff set_rev set_takeWhileD)
  ultimately show ?thesis by blast
qed

lemma each_segment_nth:
  "each_segment f segs = Inr ts \<Longrightarrow>
     length ts = length segs \<and> (\<forall>i < length segs. f (segs ! i) = Inr (ts ! i))"
proof (induction segs arbitrary: ts)
  case Nil
  then show ?case by simp
next
  case (Cons seg segs)
  from Cons.prems obtain t ts' where
    t: "f seg = Inr t" and ts': "each_segment f segs = Inr ts'" and ts: "ts = t # ts'"
    by (auto simp: ebind_def split: sum.splits)
  from Cons.IH[OF ts'] t ts show ?case
    by (auto simp: nth_Cons split: nat.splits)
qed

lemma round_half_even_near: "\<bar>of_int (round_half_even y) - y\<bar> \<le> 1 / 2"
proof -
  have "of_int \<lfloor>y\<rfloor> \<le> y" "y < of_int \<lfloor>y\<rfloor> + 1" by linarith+
  then show ?thesis
    by (auto simp: round_half_even_def Let_def)
qed

lemma round2_rounded:
  "of_int \<lfloor>round2 x * 100\<rfloor> = round2 x * 100 \<and> \<bar>round2 x - x\<bar> \<le> 1 / 200"
proof -
  have "round2 x * 100 = of_int (round_half_even (x * 100))"
    by (simp add: round2_def)
  moreover have "\<bar>round2 x - x\<bar> = \<bar>of_int (round_half_even (x * 100)) - x * 100\<bar> / 100"
    by (simp add: round2_def field_simps abs_mult abs_divide)
  moreover note round_half_even_near[of "x * 100"]
  ultimately show ?thesis by simp
qed

lemma rounded2_round2: "rounded2 (JNum (PyFloat x)) (JNum (PyFloat (round2 x)))"
  using round2_rounded[of x] by simp

lemma py_round2_rounded: "py_round2 v = Inr s \<Longrightarrow> rounded2 v s"
  by (induction v rule: py_round2.induct) (auto simp: rounded2_round2 simp del: rounded2.simps(3))

lemma whisperx_segment_fields:
  assumes "whisperx_segment seg = Inr t"
  shows "\<exists>kvs s e spk raw.
      seg = JObj kvs
    \<and> t = JObj [(''start'', s), (''end'', e), (''speaker'', spk), (''text'', JStr (str_strip raw))]
    \<and> py_round2 (case map_of kvs ''start'' of None \<Rightarrow> JNum (PyInt 0) | Some v \<Rightarrow> v) = Inr s
    \<and> py_round2 (case map_of kvs ''end'' of None \<Rightarrow> JNum (PyInt 0) | Some v \<Rightarrow> v) = Inr e
    \<and> spk = (case map_of kvs ''speaker'' of None \<Rightarrow> JStr ''SPEAKER_00'' | Some v \<Rightarrow> v)
    \<and> (case map_of kvs ''text'' of None \<Rightarrow> JStr [] | Some v \<Rightarrow> v) = JStr raw"
proof (cases seg)
  case (JObj kvs)
  from assms[unfolded whisperx_segment_def JObj] obtain s e x raw where
    "py_round2 (case map_of kvs ''start'' of None \<Rightarrow> JNum (PyInt 0) | Some v \<Rightarrow> v) = Inr s"
    "py_round2 (case map_of kvs ''end'' of None \<Rightarrow> JNum (PyInt 0) | Some v \<Rightarrow> v) = Inr e"
    "strip_method (case map_of kvs ''text'' of None \<Rightarrow> JStr [] | Some v \<Rightarrow> v) = Inr x"
    "t = JObj [(''start'', s), (''end'', e),
               (''speaker'', case map_of kvs ''speaker'' of None \<Rightarrow> JStr ''SPEAKER_00'' | Some v \<Rightarrow> v),
               (''text'', JStr x)]"
    by (auto simp: ebind_def split: sum.splits)
  moreover from this(3) obtain raw where
    "(case map_of kvs ''text'' of None \<Rightarrow> JStr [] | Some v \<Rightarrow> v) = JStr raw" "x = str_strip raw"
    by (cases "case map_of kvs ''text'' of None \<Rightarrow> JStr [] | Some v \<Rightarrow> v") auto
  ultimately show ?thesis using JObj by blast
qed (use assms in \<open>simp_all add: whisperx_segment_def ebind_def\<close>)

lemma whisper_segment_fields:
  assumes "whisper_segment seg = Inr t"
  shows "\<exists>kvs s e raw.
      seg = JObj kvs
    \<and> t = JObj [(''start'', s), (''end'', e), (''speaker'', JStr ''SPEAKER_00''),
                (''text'', JStr (str_strip raw))]
    \<and> py_round2 (case map_of kvs ''start'' of None \<Rightarrow> JNum (PyInt 0) | Some v \<Rightarrow> v) = Inr s
    \<and> py_round2 (case map_of kvs ''end'' of None \<Rightarrow> JNum (PyInt 0) | Some v \<Rightarrow> v) = Inr e
    \<and> (case map_of kvs ''text'' of None \<Rightarrow> JStr [] | Some v \<Rightarrow> v) = JStr raw"
proof (cases seg)
  case (JObj kvs)
  from assms[unfolded whisper_segment_def JObj] obtain s e x raw where
    "py_round2 (case map_of kvs ''start'' of None \<Rightarrow> JNum (PyInt 0) | Some v \<Rightarrow> v) = Inr s"
    "py_round2 (case map_of kvs ''end'' of None \<Rightarrow> JNum (PyInt 0) | Some v \<Rightarrow> v) = Inr e"
    "strip_method (case map_of kvs ''text'' of None \<Rightarrow> JStr [] | Some v \<Rightarrow> v) = Inr x"
    "t = JObj [(''start'', s), (''end'', e), (''speaker'', JStr ''SPEAKER_00''), (''text'', JStr x)]"
    by (auto simp: ebind_def split: sum.splits)
  moreover from this(3) obtain raw where
    "(case map_of kvs ''text'' of None \<Rightarrow> JStr [] | Some v \<Rightarrow> v) = JStr raw" "x = str_strip raw"
    by (cases "case map_of kvs ''text'' of None \<Rightarrow> JStr [] | Some v \<Rightarrow> v") auto
  ultimately show ?thesis using JObj by blast
qed (use assms in \<open>simp_all add: whisper_segment_def ebind_def\<close>)

lemma save_transcript_written:
  assumes "save_transcript sp f result output_path = (Inr transcript, written)"
  shows "written = [(output_path, JObj [(''segments'', JArr transcript)])]
    \<and> (\<exists>segs. ebind (dict_get result ''segments'' (JArr [])) py_iter = Inr segs
          \<and> length transcript = length segs
          \<and> (\<forall>i < length segs. f (segs ! i) = Inr (transcript ! i)))"
proof -
  from assms obtain segs where
    segs: "ebind (dict_get result ''segments'' (JArr [])) py_iter = Inr segs" and
    each: "each_segment f segs = Inr transcript" and
    w: "written = [(output_path, JObj [(''segments'', JArr transcript)])]"
    by (auto simp: save_transcript_def ebind_def split: sum.splits option.splits)
  from each_segment_nth[OF each] segs w show ?thesis by blast
qed

text \<open>
  Claim C6. Whenever the transcription script returns, it has written one file, the
  JSON object with the list \<open>segments\<close>, which has one entry for every segment of the
  speech model's result, in order. The entry has exactly the four fields \<open>start\<close>,
  \<open>end\<close>, \<open>speaker\<close> and \<open>text\<close>: \<open>start\<close> and \<open>end\<close> are the model's
  timestamps rounded to two decimals, with 0 for an absent one; \<open>text\<close> is the model's text without
  leading and trailing whitespace; \<open>speaker\<close> is \<open>SPEAKER_00\<close> when the segment has no
  label or when the basic Whisper model was used, and the model's label otherwise.
\<close>

theorem transcript_written:
  assumes "transcribe_and_diarize sp audio_path output_path hf_token = (Inr transcript, written)"
  shows "written = [(output_path, JObj [(''segments'', JArr transcript)])]
    \<and> (\<exists>result segs.
          (whisperx_run sp audio_path hf_token = Inr result
             \<or> whisperx_run sp audio_path hf_token = Inl ImportError
               \<and> whisper_run sp audio_path = Inr result)
        \<and> ebind (dict_get result ''segments'' (JArr [])) py_iter = Inr segs
        \<and> length transcript = length segs
        \<and> (\<forall>i < length segs. \<exists>kvs s e spk raw.
              segs ! i = JObj kvs
            \<and> transcript ! i =
                JObj [(''start'', s), (''end'', e), (''speaker'', spk), (''text'', JStr (str_strip raw))]
            \<and> rounded2 (case map_of kvs ''start'' of None \<Rightarrow> JNum (PyInt 0) | Some v \<Rightarrow> v) s
            \<and> rounded2 (case map_of kvs ''end'' of None \<Rightarrow> JNum (PyInt 0) | Some v \<Rightarrow> v) e
            \<and> (map_of kvs ''start'' = None \<longrightarrow> s = JNum (PyInt 0))
            \<and> (map_of kvs ''end'' = None \<longrightarrow> e = JNum (PyInt 0))
            \<and> (case map_of kvs ''text'' of None \<Rightarrow> JStr [] | Some v \<Rightarrow> v) = JStr raw
            \<and> (\<exists>a b. raw = a @ str_strip raw @ b \<and> list_all is_space a \<and> list_all is_space b)
            \<and> (str_strip raw = []
                 \<or> \<not> is_space (hd (str_strip raw)) \<and> \<not> is_space (last (str_strip raw)))
            \<and> spk = (if whisperx_run sp audio_path hf_token = Inl ImportError then JStr ''SPEAKER_00''
                     else case map_of kvs ''speaker'' of None \<Rightarrow> JStr ''SPEAKER_00'' | Some v \<Rightarrow> v)))"
proof (cases "whisperx_run sp audio_path hf_token")
  case (Inr result)
  with assms have "save_transcript sp whisperx_segment result output_path = (Inr transcript, written)"
    by (simp add: transcribe_and_diarize_def)
  from save_transcript_written[OF this] obtain segs where
    w: "written = [(output_path, JObj [(''segments'', JArr transcript)])]" and
    segs: "ebind (dict_get result ''segments'' (JArr [])) py_iter = Inr segs" and
    len: "length transcript = length segs" and
    each: "\<forall>i < length segs. whisperx_segment (segs ! i) = Inr (transcript ! i)"
    by blast
  have "\<exists>kvs s e spk raw.
              segs ! i = JObj kvs
            \<and> transcript ! i =
                JObj [(''start'', s), (''end'', e), (''speaker'', spk), (''text'', JStr (str_strip raw))]
            \<and> rounded2 (case map_of kvs ''start'' of None \<Rightarrow> JNum (PyInt 0) | Some v \<Rightarrow> v) s
            \<and> rounded2 (case map_of kvs ''end'' of None \<Rightarrow> JNum (PyInt 0) | Some v \<Rightarrow> v) e
            \<and> (map_of kvs ''start'' = None \<longrightarrow> s = JNum (PyInt 0))
            \<and> (map_of kvs ''end'' = None \<longrightarrow> e = JNum (PyInt 0))
            \<and> (case map_of kvs ''text'' of None \<Rightarrow> JStr [] | Some v \<Rightarrow> v) = JStr raw
            \<and> (\<exists>a b. raw = a @ str_strip raw @ b \<and> list_all is_space a \<and> list_all is_space b)
            \<and> (str_strip raw = []
                 \<or> \<not> is_space (hd (str_strip raw)) \<and> \<not> is_space (last (str_strip raw)))
            \<and> spk = (if whisperx_run sp audio_path hf_token = Inl ImportError then JStr ''SPEAKER_00''
                     else case map_of kvs ''speaker'' of None \<Rightarrow> JStr ''SPEAKER_00'' | Some v \<Rightarrow> v)"
    if "i < length segs" for i
  proof -
    from each that have "whisperx_segment (segs ! i) = Inr (transcript ! i)" by simp
    from whisperx_segment_fields[OF this] obtain kvs s e spk raw where f:
      "segs ! i = JObj kvs"
      "transcript ! i = JObj [(''start'', s), (''end'', e), (''speaker'', spk), (''text'', JStr (str_strip raw))]"
      "py_round2 (case map_of kvs ''start'' of None \<Rightarrow> JNum (PyInt 0) | Some v \<Rightarrow> v) = Inr s"
      "py_round2 (case map_of kvs ''end'' of None \<Rightarrow> JNum (PyInt 0) | Some v \<Rightarrow> v) = Inr e"
      "spk = (case map_of kvs ''speaker'' of None \<Rightarrow> JStr ''SPEAKER_00'' | Some v \<Rightarrow> v)"
      "(case map_of kvs ''text'' of None \<Rightarrow> JStr [] | Some v \<Rightarrow> v) = JStr raw"
      by blast
    from f(3) have "map_of kvs ''start'' = None \<longrightarrow> s = JNum (PyInt 0)" by auto
    moreover from f(4) have "map_of kvs ''end'' = None \<longrightarrow> e = JNum (PyInt 0)" by auto
    moreover note py_round2_rounded[OF f(3)] py_round2_rounded[OF f(4)]
    moreover note str_strip_stripped[of raw] str_strip_decomp[of raw]
    moreover from f(5) Inr have
      "spk = (if whisperx_run sp audio_path hf_token = Inl ImportError then JStr ''SPEAKER_00''
              else case map_of kvs ''speaker'' of None \<Rightarrow> JStr ''SPEAKER_00'' | Some v \<Rightarrow> v)"
      by simp
    ultimately show ?thesis using f(1,2,6)
      by (intro exI[of _ kvs] exI[of _ s] exI[of _ e] exI[of _ spk] exI[of _ raw]) simp
  qed
  with w segs len Inr show ?thesis by blast
next
  case (Inl e0)
  with assms have e0: "e0 = ImportError"
    by (auto simp: transcribe_and_diarize_def split: if_splits)
  with assms Inl obtain result where
    basic: "whisper_run sp audio_path = Inr result" and
    "save_transcript sp whisper_segment result output_path = (Inr transcript, written)"
    by (auto simp: transcribe_and_diarize_def split: sum.splits if_splits)
  from save_transcript_written[OF this(2)] obtain segs where
    w: "written = [(output_path, JObj [(''segments'', JArr transcript)])]" and
    segs: "ebind (dict_get result ''segments'' (JArr [])) py_iter = Inr segs" and
    len: "length transcript = length segs" and
    each: "\<forall>i < length segs. whisper_segment (segs ! i) = Inr (transcript ! i)"
    by blast
  have "\<exists>kvs s e spk raw.
              segs ! i = JObj kvs
            \<and> transcript ! i =
                JObj [(''start'', s), (''end'', e), (''speaker'', spk), (''text'', JStr (str_strip raw))]
            \<and> rounded2 (case map_of kvs ''start'' of None \<Rightarrow> JNum (PyInt 0) | Some v \<Rightarrow> v) s
            \<and> rounded2 (case map_of kvs ''end'' of None \<Rightarrow> JNum (PyInt 0) | Some v \<Rightarrow> v) e
            \<and> (map_of kvs ''start'' = None \<longrightarrow> s = JNum (PyInt 0))
            \<and> (map_of kvs ''end'' = None \<longrightarrow> e = JNum (PyInt 0))
            \<and> (case map_of kvs ''text'' of None \<Rightarrow> JStr [] | Some v \<Rightarrow> v) = JStr raw
            \<and> (\<exists>a b. raw = a @ str_strip raw @ b \<and> list_all is_space a \<and> list_all is_space b)
            \<and> (str_strip raw = []
                 \<or> \<not> is_space (hd (str_strip raw)) \<and> \<not> is_space (last (str_strip raw)))
            \<and> spk = (if whisperx_run sp audio_path hf_token = Inl ImportError then JStr ''SPEAKER_00''
                     else case map_of kvs ''speaker'' of None \<Rightarrow> JStr ''SPEAKER_00'' | Some v \<Rightarrow> v)"
    if "i < length segs" for i
  proof -
    from each that have "whisper_segment (segs ! i) = Inr (transcript ! i)" by simp
    from whisper_segment_fields[OF this] obtain kvs s e raw where f:
      "segs ! i = JObj kvs"
      "transcript ! i = JObj [(''start'', s), (''end'', e), (''speaker'', JStr ''SPEAKER_00''),
                              (''text'', JStr (str_strip raw))]"
      "py_round2 (case map_of kvs ''start'' of None \<Rightarrow> JNum (PyInt 0) | Some v \<Rightarrow> v) = Inr s"
      "py_round2 (case map_of kvs ''end'' of None \<Rightarrow> JNum (PyInt 0) | Some v \<Rightarrow> v) = Inr e"
      "(case map_of kvs ''text'' of None \<Rightarrow> JStr [] | Some v \<Rightarrow> v) = JStr raw"
      by blast
    from f(3) have "map_of kvs ''start'' = None \<longrightarrow> s = JNum (PyInt 0)" by auto
    moreover from f(4) have "map_of kvs ''end'' = None \<longrightarrow> e = JNum (PyInt 0)" by auto
    moreover note py_round2_rounded[OF f(3)] py_round2_rounded[OF f(4)]
    moreover note str_strip_stripped[of raw] str_strip_decomp[of raw]
    moreover from Inl e0 have "whisperx_run sp audio_path hf_token = Inl ImportError"
      by simp
    ultimately show ?thesis using f(1,2,5)
      by (intro exI[of _ kvs] exI[of _ s] exI[of _ e] exI[of _ "JStr ''SPEAKER_00''"] exI[of _ raw]) simp
  qed
  with w segs len Inl e0 basic show ?thesis by blast
qed

text \<open>
  The statement on a WhisperX result of two segments: the timestamps 0.625 and 1234.567
  become 0.62 and 1234.57, the first segment keeps its label and loses the blanks around
  its text, the second gets the defaults. On a result of the basic Whisper model, the
  label of the segment is not read.
\<close>

theorem transcript_written_witness:
  "transcribe_and_diarize speech_two_segments ''talk.wav'' ''talk.json'' None =
     (Inr [JObj [(''start'', JNum (PyFloat (62 / 100))), (''end'', JNum (PyFloat (123457 / 100))),
                 (''speaker'', JStr ''SPEAKER_01''), (''text'', JStr ''Hello there.'')],
           JObj [(''start'', JNum (PyInt 0)), (''end'', JNum (PyInt 0)),
                 (''speaker'', JStr ''SPEAKER_00''), (''text'', JStr ''Bye'')]],
      [(''talk.json'', JObj [(''segments'', JArr [
           JObj [(''start'', JNum (PyFloat (62 / 100))), (''end'', JNum (PyFloat (123457 / 100))),
                 (''speaker'', JStr ''SPEAKER_01''), (''text'', JStr ''Hello there.'')],
           JObj [(''start'', JNum (PyInt 0)), (''end'', JNum (PyInt 0)),
                 (''speaker'', JStr ''SPEAKER_00''), (''text'', JStr ''Bye'')]])])])
   \<and> transcribe_and_diarize speech_whisper_only ''talk.wav'' ''talk.json'' (Some ''token'') =
     (Inr [JObj [(''start'', JNum (PyInt 0)), (''end'', JNum (PyFloat (7 / 2))),
                 (''speaker'', JStr ''SPEAKER_00''), (''text'', JStr ''Welcome back'')]],
      [(''talk.json'', JObj [(''segments'', JArr [
           JObj [(''start'', JNum (PyInt 0)), (''end'', JNum (PyFloat (7 / 2))),
                 (''speaker'', JStr ''SPEAKER_00''), (''text'', JStr ''Welcome back'')]])])])"
proof -
  let ?t = "[JObj [(''start'', JNum (PyFloat (62 / 100))), (''end'', JNum (PyFloat (123457 / 100))),
                 (''speaker'', JStr ''SPEAKER_01''), (''text'', JStr ''Hello there.'')],
           JObj [(''start'', JNum (PyInt 0)), (''end'', JNum (PyInt 0)),
                 (''speaker'', JStr ''SPEAKER_00''), (''text'', JStr ''Bye'')]] :: rat json list"
  let ?u = "[JObj [(''start'', JNum (PyInt 0)), (''end'', JNum (PyFloat (7 / 2))),
                 (''speaker'', JStr ''SPEAKER_00''), (''text'', JStr ''Welcome back'')]] :: rat json list"
  have r1: "round2 (5 / 8) = 62 / 100" and r2: "round2 (1234567 / 1000) = 123457 / 100"
    and r3: "round2 (7 / 2) = 7 / 2"
    by code_simp+
  have "\<exists>written. transcribe_and_diarize speech_two_segments ''talk.wav'' ''talk.json'' None
      = (Inr ?t, written)"
    by (simp add: transcribe_and_diarize_def speech_two_segments_def save_transcript_def
        whisperx_segment_def ebind_def str_strip_def is_space_def r1 r2)
  then obtain written where run:
    "transcribe_and_diarize speech_two_segments ''talk.wav'' ''talk.json'' None = (Inr ?t, written)"
    by blast
  from transcript_written[OF run] have w: "written = [(''talk.json'', JObj [(''segments'', JArr ?t)])]"
    by blast
  have "\<exists>written. transcribe_and_diarize speech_whisper_only ''talk.wav'' ''talk.json'' (Some ''token'')
      = (Inr ?u, written)"
    by (simp add: transcribe_and_diarize_def speech_whisper_only_def save_transcript_def
        whisper_segment_def ebind_def str_strip_def is_space_def r3)
  then obtain written' where run':
    "transcribe_and_diarize speech_whisper_only ''talk.wav'' ''talk.json'' (Some ''token'')
       = (Inr ?u, written')"
    by blast
  from transcript_written[OF run'] have "written' = [(''talk.json'', JObj [(''segments'', JArr ?u)])]"
    by blast
  with run run' w show ?thesis by simp
qed

end
